theory Spec2Isabelle
  imports Complex_Main
begin

section \<open>Numeric model and external collaborators\<close>

text \<open>
  The smoothed height mesh of \<^verbatim>\<open>rts/Sim/Misc/SmoothHeightMesh.cpp\<close>, as the release build
  runs it: \<^verbatim>\<open>NDEBUG\<close> is defined, \<^verbatim>\<open>_DEBUG\<close> and \<^verbatim>\<open>SMOOTHMESH_CORRECTNESS_CHECK\<close> are
  not, so every \<^verbatim>\<open>assert\<close> line and every block under these macros is compiled out and none
  of them is part of the control flow here.

  C++ \<^verbatim>\<open>float\<close> values are modelled as reals: comparisons, \<^verbatim>\<open>std::max\<close> and
  \<^verbatim>\<open>std::clamp\<close> are exact on finite floats, arithmetic is idealised (no rounding, no
  NaN, no infinity).  A C++ \<^verbatim>\<open>int\<close> has 32 bits.  Two operations on it have no defined
  result in C++ and are a failure here: the conversion of a float whose truncation lies
  outside \<open>INT_MIN .. INT_MAX\<close> (\<open>FloatToIntRange\<close>; the quotient of a division by zero is
  infinite or NaN and among them), and signed arithmetic whose result lies outside that
  range (\<open>IntOverflow\<close>).  A \<^verbatim>\<open>resize\<close> to a negative size throws in C++ and is the failure
  \<open>LengthError\<close>; memory is not bounded otherwise.  A read or write outside the mesh by a
  query or an edit is the failure \<open>OutOfBounds\<close>; the conversions and sums of the queries
  are written without a check and fit on a mesh that \<^verbatim>\<open>MakeSmoothMesh\<close> has built (lemmas
  \<open>cell_of_Clamp\<close>, \<open>cell_index_int_range\<close>).  The loops of the build index the arrays
  that \<^verbatim>\<open>MakeSmoothMesh\<close> has just sized for them, and their accesses are written
  unchecked: a column index lies in \<open>0 .. maxx\<close>, a kernel index in \<open>0 .. blurSize\<close>, and a
  cell index is inside the mesh (lemma \<open>cell_index_in_mesh\<close>).
\<close>

definition FLT_MAX :: real where
  "FLT_MAX = 340282346638528859811704183484516925440"

text \<open>Conversion of a float to \<^verbatim>\<open>int\<close> truncates toward zero.\<close>

definition float_to_int :: "real \<Rightarrow> int" where
  "float_to_int r = (if 0 \<le> r then \<lfloor>r\<rfloor> else \<lceil>r\<rceil>)"

text \<open>Division of two \<^verbatim>\<open>int\<close> values truncates toward zero.\<close>

definition int_div :: "int \<Rightarrow> int \<Rightarrow> int" where
  "int_div a b = sgn a * sgn b * (\<bar>a\<bar> div \<bar>b\<bar>)"

text \<open>The values of a 32-bit \<^verbatim>\<open>int\<close>.\<close>

definition INT_MAX :: int where
  "INT_MAX = 2147483647"

definition INT_MIN :: int where
  "INT_MIN = - 2147483648"

definition int_range :: "int \<Rightarrow> bool" where
  "int_range i = (INT_MIN \<le> i \<and> i \<le> INT_MAX)"

text \<open>
  The height source: \<^verbatim>\<open>CGround::GetHeightReal\<close>, \<^verbatim>\<open>readMap->GetCurrMinHeight()\<close> and
  \<^verbatim>\<open>readMap->GetCurrMaxHeight()\<close> are external to the file and taken as parameters.
\<close>

record terrain =
  GetHeightReal :: "real \<Rightarrow> real \<Rightarrow> real"
  GetCurrMinHeight :: real
  GetCurrMaxHeight :: real

text \<open>
  Modelled from the spec: \<^verbatim>\<open>Clamp\<close> and \<^verbatim>\<open>mix\<close> of \<^verbatim>\<open>System/SpringMath.h\<close> are not
  among the sources.  The spec has the query clamp its coordinate into the grid bounds and
  interpolate linearly between corners.
\<close>

definition Clamp :: "real \<Rightarrow> real \<Rightarrow> real \<Rightarrow> real" where
  "Clamp v vmin vmax = min vmax (max vmin v)"

definition mix :: "real \<Rightarrow> real \<Rightarrow> real \<Rightarrow> real" where
  "mix v1 v2 a = v1 + (v2 - v1) * a"

text \<open>
  \<^verbatim>\<open>std::clamp(v, lo, hi)\<close>, as the standard library computes it.  The standard leaves it
  undefined for \<open>hi < lo\<close>; a height source has \<open>minHeight \<le> maxHeight\<close>.
\<close>

definition std_clamp :: "real \<Rightarrow> real \<Rightarrow> real \<Rightarrow> real" where
  "std_clamp v lo hi = (if v < lo then lo else if hi < v then hi else v)"

datatype error = OutOfBounds | LengthError | IntOverflow | FloatToIntRange

section \<open>The query: Interpolate\<close>

text \<open>A read of \<^verbatim>\<open>heightmap[i]\<close>; a read outside the array is undefined in C++ and an error here.\<close>

definition read_at :: "real list \<Rightarrow> int \<Rightarrow> error + real" where
  "read_at heightmap i =
     (if 0 \<le> i \<and> nat i < length heightmap then Inr (heightmap ! nat i) else Inl OutOfBounds)"

definition Interpolate :: "real \<Rightarrow> real \<Rightarrow> int \<Rightarrow> int \<Rightarrow> real \<Rightarrow> real list \<Rightarrow> error + real" where
  "Interpolate x0 y0 maxx maxy res heightmap =
     (let x = Clamp (x0 / res) 0 (of_int maxx - 1);
          y = Clamp (y0 / res) 0 (of_int maxy - 1);
          sx = float_to_int x;
          sy = float_to_int y;
          dx = x - of_int sx;
          dy = y - of_int sy;
          sxp1 = min (sx + 1) (maxx - 1);
          syp1 = min (sy + 1) (maxy - 1)
      in case read_at heightmap (sx + sy * maxx) of Inl e \<Rightarrow> Inl e | Inr h1 \<Rightarrow>
         (case read_at heightmap (sxp1 + sy * maxx) of Inl e \<Rightarrow> Inl e | Inr h2 \<Rightarrow>
         (case read_at heightmap (sx + syp1 * maxx) of Inl e \<Rightarrow> Inl e | Inr h3 \<Rightarrow>
         (case read_at heightmap (sxp1 + syp1 * maxx) of Inl e \<Rightarrow> Inl e | Inr h4 \<Rightarrow>
            (let hi1 = mix h1 h2 dx;
                 hi2 = mix h3 h4 dx
             in Inr (mix hi1 hi2 dy))))))"

section \<open>The sliding-window maximum pass\<close>

text \<open>
  The loops over the columns read and write \<^verbatim>\<open>colsMaxima[x]\<close> and \<^verbatim>\<open>maximaRows[x]\<close> only:
  \<open>at_column\<close> runs a loop body on these two cells and writes them back.
\<close>

definition at_column ::
  "(int \<Rightarrow> real \<times> int \<Rightarrow> real \<times> int) \<Rightarrow> int \<Rightarrow> real list \<times> int list \<Rightarrow> real list \<times> int list" where
  "at_column body x = (\<lambda>(colsMaxima, maximaRows).
     let (c, r) = body x (colsMaxima ! nat x, maximaRows ! nat x)
     in (colsMaxima[nat x := c], maximaRows[nat x := r]))"

definition FindMaximumColumnHeights_body ::
  "terrain \<Rightarrow> real \<Rightarrow> int \<Rightarrow> int \<Rightarrow> real \<times> int \<Rightarrow> real \<times> int" where
  "FindMaximumColumnHeights_body T resolution y x = (\<lambda>(colsMaxima_x, maximaRows_x).
     let curx = of_int x * resolution;
         cury = of_int y * resolution;
         curh = GetHeightReal T curx cury
     in if curh > colsMaxima_x then (curh, y) else (colsMaxima_x, maximaRows_x))"

definition FindMaximumColumnHeights ::
  "terrain \<Rightarrow> int \<Rightarrow> int \<Rightarrow> int \<Rightarrow> real \<Rightarrow> real list \<Rightarrow> int list \<Rightarrow> real list \<times> int list" where
  "FindMaximumColumnHeights T maxx maxy winSize resolution colsMaxima maximaRows =
     fold (\<lambda>y. fold (at_column (FindMaximumColumnHeights_body T resolution y)) [0..maxx])
       [0..min maxy winSize] (colsMaxima, maximaRows)"

definition AdvanceMaximaRows ::
  "terrain \<Rightarrow> int \<Rightarrow> int \<Rightarrow> real \<Rightarrow> real list \<Rightarrow> int list \<Rightarrow> int list" where
  "AdvanceMaximaRows T y maxx resolution colsMaxima maximaRows =
     (let cury = of_int y * resolution
      in fold (\<lambda>x maximaRows.
           if maximaRows ! nat x = y - 1 then
             (let curx = of_int x * resolution;
                  curh = GetHeightReal T curx cury
              in if curh = colsMaxima ! nat x then maximaRows[nat x := y] else maximaRows)
           else maximaRows) [0..maxx] maximaRows)"

definition FindRadialMaximum ::
  "int \<Rightarrow> int \<Rightarrow> int \<Rightarrow> real \<Rightarrow> real list \<Rightarrow> real list \<Rightarrow> real list" where
  "FindRadialMaximum y maxx winSize resolution colsMaxima mesh =
     fold (\<lambda>x mesh.
       let startx = max (x - winSize) 0;
           endx = min (maxx - 1) (x + winSize);
           maxRowHeight = fold (\<lambda>i maxRowHeight. max (colsMaxima ! nat i) maxRowHeight)
                            [startx..endx] (- FLT_MAX)
       in mesh[nat (x + y * maxx) := maxRowHeight]) [0..maxx - 1] mesh"

definition FixRemainingMaxima_body ::
  "terrain \<Rightarrow> int \<Rightarrow> int \<Rightarrow> int \<Rightarrow> real \<Rightarrow> int \<Rightarrow> real \<times> int \<Rightarrow> real \<times> int" where
  "FixRemainingMaxima_body T y maxy winSize resolution x = (\<lambda>(colsMaxima_x, maximaRows_x).
     let nextrow = y + winSize + 1;
         nextrowy = of_int nextrow * resolution;
         curx = of_int x * resolution
     in if maximaRows_x \<le> y - winSize then
          fold (\<lambda>y1 (colsMaxima_x, maximaRows_x).
                 let h = GetHeightReal T curx (of_int y1 * resolution)
                 in if h > colsMaxima_x then (h, y1)
                    else if colsMaxima_x = h then (colsMaxima_x, y1)
                    else (colsMaxima_x, maximaRows_x))
            [max 0 (y - winSize + 1)..min maxy nextrow] (- FLT_MAX, maximaRows_x)
        else if nextrow \<le> maxy then
          (let h = GetHeightReal T curx nextrowy
           in if h > colsMaxima_x then (h, nextrow) else (colsMaxima_x, maximaRows_x))
        else (colsMaxima_x, maximaRows_x))"

definition FixRemainingMaxima ::
  "terrain \<Rightarrow> int \<Rightarrow> int \<Rightarrow> int \<Rightarrow> int \<Rightarrow> real \<Rightarrow> real list \<Rightarrow> int list \<Rightarrow> real list \<times> int list" where
  "FixRemainingMaxima T y maxx maxy winSize resolution colsMaxima maximaRows =
     fold (at_column (FixRemainingMaxima_body T y maxy winSize resolution)) [0..maxx]
       (colsMaxima, maximaRows)"

text \<open>The body of the loop over the rows in \<^verbatim>\<open>MakeSmoothMesh\<close>, and the loop over a list of rows.\<close>

definition MakeSmoothMesh_row ::
  "terrain \<Rightarrow> int \<Rightarrow> int \<Rightarrow> int \<Rightarrow> real \<Rightarrow> int \<Rightarrow>
   real list \<times> int list \<times> real list \<Rightarrow> real list \<times> int list \<times> real list" where
  "MakeSmoothMesh_row T maxx maxy winSize resolution y = (\<lambda>(colsMaxima, maximaRows, mesh).
     let maximaRows = AdvanceMaximaRows T y maxx resolution colsMaxima maximaRows;
         mesh = FindRadialMaximum y maxx winSize resolution colsMaxima mesh;
         (colsMaxima, maximaRows) =
            FixRemainingMaxima T y maxx maxy winSize resolution colsMaxima maximaRows
     in (colsMaxima, maximaRows, mesh))"

definition MakeSmoothMesh_rows ::
  "terrain \<Rightarrow> int \<Rightarrow> int \<Rightarrow> int \<Rightarrow> real \<Rightarrow> int list \<Rightarrow>
   real list \<times> int list \<times> real list \<Rightarrow> real list \<times> int list \<times> real list" where
  "MakeSmoothMesh_rows T maxx maxy winSize resolution ys =
     fold (MakeSmoothMesh_row T maxx maxy winSize resolution) ys"

section \<open>The blur passes\<close>

text \<open>
  Modelled from the spec: \<^verbatim>\<open>for_mt\<close> of \<^verbatim>\<open>System/Threading/ThreadPool.h\<close> is not among the
  sources.  The spec has it run the body once for every index of the range, the iterations
  writing disjoint cells of the destination; it is the loop over \<open>[0..n - 1]\<close> here.
\<close>

definition BlurHorizontal ::
  "terrain \<Rightarrow> int \<Rightarrow> int \<Rightarrow> int \<Rightarrow> real \<Rightarrow> real list \<Rightarrow> real list \<Rightarrow> real list \<Rightarrow> real list" where
  "BlurHorizontal T maxx maxy blurSize resolution kernel' mesh smoothed =
     (let lineSize = maxx
      in fold (\<lambda>y. fold (\<lambda>x smoothed.
           let avg = fold (\<lambda>x1 avg. avg + kernel' ! nat \<bar>x1 - x\<bar> *
                                    mesh ! nat (max 0 (min (maxx - 1) x1) + y * lineSize))
                       [x - blurSize..x + blurSize] 0;
               ghaw = GetHeightReal T (of_int x * resolution) (of_int y * resolution);
               smoothed = smoothed[nat (x + y * lineSize) := max ghaw avg]
           in smoothed[nat (x + y * lineSize) :=
                std_clamp (smoothed ! nat (x + y * lineSize))
                  (GetCurrMinHeight T) (GetCurrMaxHeight T)])
           [0..maxx - 1]) [0..maxy - 1] smoothed)"

definition BlurVertical ::
  "terrain \<Rightarrow> int \<Rightarrow> int \<Rightarrow> int \<Rightarrow> real \<Rightarrow> real list \<Rightarrow> real list \<Rightarrow> real list \<Rightarrow> real list" where
  "BlurVertical T maxx maxy blurSize resolution kernel' mesh smoothed =
     (let lineSize = maxx
      in fold (\<lambda>x. fold (\<lambda>y smoothed.
           let avg = fold (\<lambda>y1 avg. avg + kernel' ! nat \<bar>y1 - y\<bar> *
                                    mesh ! nat (x + max 0 (min (maxy - 1) y1) * lineSize))
                       [y - blurSize..y + blurSize] 0;
               ghaw = GetHeightReal T (of_int x * resolution) (of_int y * resolution);
               smoothed = smoothed[nat (x + y * lineSize) := max ghaw avg]
           in smoothed[nat (x + y * lineSize) :=
                std_clamp (smoothed ! nat (x + y * lineSize))
                  (GetCurrMinHeight T) (GetCurrMaxHeight T)])
           [0..maxy - 1]) [0..maxx - 1] smoothed)"

text \<open>
  The loop over the blur passes: each pass blurs \<open>mesh\<close> into \<open>origMesh\<close> and swaps the two,
  horizontally and then vertically.  The source runs \<open>blurPassesCount\<close> passes.
\<close>

fun MakeSmoothMesh_blur ::
  "nat \<Rightarrow> terrain \<Rightarrow> int \<Rightarrow> int \<Rightarrow> int \<Rightarrow> real \<Rightarrow> real list \<Rightarrow>
   real list \<times> real list \<Rightarrow> real list \<times> real list" where
  "MakeSmoothMesh_blur 0 T maxx maxy blurSize resolution kernel' (mesh, origMesh) = (mesh, origMesh)"
| "MakeSmoothMesh_blur (Suc numBlurs) T maxx maxy blurSize resolution kernel' (mesh, origMesh) =
     (let origMesh1 = BlurHorizontal T maxx maxy blurSize resolution kernel' mesh origMesh;
          (mesh1, origMesh2) = (origMesh1, mesh);
          origMesh3 = BlurVertical T maxx maxy blurSize resolution kernel' mesh1 origMesh2;
          (mesh2, origMesh4) = (origMesh3, mesh1)
      in MakeSmoothMesh_blur numBlurs T maxx maxy blurSize resolution kernel' (mesh2, origMesh4))"

definition blurPassesCount :: nat where
  "blurPassesCount = 2"

definition gSigma :: real where
  "gSigma = 5"

definition gaussianG :: "int \<Rightarrow> real \<Rightarrow> real" where
  "gaussianG x sigma =
     0.3989422804 * exp (- 0.5 * of_int x * of_int x / (sigma * sigma)) / sigma"

definition fillGaussianKernelFunc :: "int \<Rightarrow> real \<Rightarrow> real list" where
  "fillGaussianKernelFunc blurSize sigma =
     (let gaussianKernel = replicate (nat (blurSize + 1)) 0;
          gaussianKernel = gaussianKernel[0 := gaussianG 0 sigma];
          sum = gaussianG 0 sigma;
          (gaussianKernel, sum) =
             fold (\<lambda>i (gaussianKernel, sum).
                     (gaussianKernel[nat i := gaussianG i sigma], sum + 2 * gaussianG i sigma))
               [1..blurSize] (gaussianKernel, sum)
      in map (\<lambda>gk. gk / sum) gaussianKernel)"

section \<open>Signed arithmetic of the build\<close>

text \<open>
  The signed arithmetic of the loops of the sliding-window pass.  For every row \<open>y\<close> of
  \<open>0 .. maxy\<close>, \<^verbatim>\<open>FixRemainingMaxima\<close> computes \<open>y + winSize + 1\<close>, and for every column of
  \<open>0 .. maxx\<close> it computes \<open>y - winSize\<close> and, in its first branch, \<open>y - winSize + 1\<close>; that
  branch is taken when \<open>maximaRows[x] \<le> y - winSize\<close>, so always when \<open>y - winSize\<close> is
  \<open>INT_MAX\<close>, the one value at which the sum overflows.  \<^verbatim>\<open>FindRadialMaximum\<close> computes
  \<open>x - winSize\<close> and \<open>x + winSize\<close> for every column of \<open>0 .. maxx - 1\<close>.  An overflow has no
  defined result whatever ran before it, so it is decided here before the loops run, over
  the same ranges.  The remaining arithmetic of the build (the loop counters, the flat
  indices, \<open>x - blurSize\<close> and \<open>x + blurSize\<close> in the blur) fits once the size of the mesh
  does (lemmas \<open>cell_index_int_range\<close> and \<open>blur_ints_fit\<close>).
\<close>

definition MakeSmoothMesh_ints_fit :: "int \<Rightarrow> int \<Rightarrow> int \<Rightarrow> bool" where
  "MakeSmoothMesh_ints_fit maxx maxy winSize =
     list_all (\<lambda>y.
         int_range (y + winSize) \<and> int_range (y + winSize + 1)
         \<and> list_all (\<lambda>x. int_range (x - winSize) \<and> int_range (x + winSize)) [0..maxx - 1]
         \<and> list_all (\<lambda>x. int_range (y - winSize) \<and> int_range (y - winSize + 1)) [0..maxx])
       [0..maxy]"

section \<open>The mesh object\<close>

record SmoothHeightMesh =
  maxx :: int
  maxy :: int
  fmaxx :: real
  fmaxy :: real
  resolution :: real
  smoothRadius :: real
  mesh :: "real list"
  origMesh :: "real list"
  colsMaxima :: "real list"
  maximaRows :: "int list"

text \<open>\<^verbatim>\<open>std::vector::resize(n, v)\<close> for \<open>0 \<le> n\<close>: the first \<open>n\<close> elements stay, new ones are \<open>v\<close>.\<close>

definition resize :: "'a list \<Rightarrow> int \<Rightarrow> 'a \<Rightarrow> 'a list" where
  "resize v n x = take (nat n) v @ replicate (nat n - length v) x"

text \<open>\<^verbatim>\<open>std::copy(src.begin(), src.end(), dst.begin())\<close>.\<close>

definition copy_into :: "'a list \<Rightarrow> 'a list \<Rightarrow> 'a list" where
  "copy_into src dst = src @ drop (length src) dst"

definition MakeSmoothMesh_winSize :: "SmoothHeightMesh \<Rightarrow> int" where
  "MakeSmoothMesh_winSize s = float_to_int (smoothRadius s / resolution s)"

definition MakeSmoothMesh_blurSize :: "SmoothHeightMesh \<Rightarrow> int" where
  "MakeSmoothMesh_blurSize s = max 1 (int_div (MakeSmoothMesh_winSize s) 2)"

definition MakeSmoothMesh_kernel :: "SmoothHeightMesh \<Rightarrow> real list" where
  "MakeSmoothMesh_kernel s = fillGaussianKernelFunc (MakeSmoothMesh_blurSize s) gSigma"

text \<open>
  The state of \<open>colsMaxima\<close>, \<open>maximaRows\<close> and \<open>mesh\<close> after the buffers are sized and
  \<^verbatim>\<open>FindMaximumColumnHeights\<close> has run, and after the loop over the rows \<open>ys\<close>.
\<close>

definition MakeSmoothMesh_start ::
  "terrain \<Rightarrow> SmoothHeightMesh \<Rightarrow> real list \<times> int list \<times> real list" where
  "MakeSmoothMesh_start T s =
     (let mesh0 = resize (mesh s) ((maxx s + 1) * (maxy s + 1)) 0;
          colsMaxima0 = resize [] (maxx s + 1) (- FLT_MAX);
          maximaRows0 = resize [] (maxx s + 1) (- 1);
          (colsMaxima1, maximaRows1) =
             FindMaximumColumnHeights T (maxx s) (maxy s) (MakeSmoothMesh_winSize s)
               (resolution s) colsMaxima0 maximaRows0
      in (colsMaxima1, maximaRows1, mesh0))"

definition MakeSmoothMesh_window ::
  "terrain \<Rightarrow> SmoothHeightMesh \<Rightarrow> int list \<Rightarrow> real list \<times> int list \<times> real list" where
  "MakeSmoothMesh_window T s ys =
     MakeSmoothMesh_rows T (maxx s) (maxy s) (MakeSmoothMesh_winSize s) (resolution s) ys
       (MakeSmoothMesh_start T s)"

text \<open>
  Where \<^verbatim>\<open>MakeSmoothMesh\<close> leaves defined behaviour, in the order of the source: the
  conversion of \<open>smoothRadius / resolution\<close> to \<open>winSize\<close>, the sizes \<open>maxx + 1\<close>, \<open>maxy + 1\<close>
  and their product, the \<^verbatim>\<open>resize\<close> of the meshes to the product and of the column
  arrays to \<open>maxx + 1\<close>, and the arithmetic of the loops.
\<close>

definition MakeSmoothMesh_fault :: "SmoothHeightMesh \<Rightarrow> error option" where
  "MakeSmoothMesh_fault s =
     (if resolution s = 0 then Some FloatToIntRange
      else if \<not> int_range (float_to_int (smoothRadius s / resolution s)) then Some FloatToIntRange
      else if \<not> (int_range (maxx s + 1) \<and> int_range (maxy s + 1)
                  \<and> int_range ((maxx s + 1) * (maxy s + 1))) then Some IntOverflow
      else if (maxx s + 1) * (maxy s + 1) < 0 then Some LengthError
      else if maxx s + 1 < 0 then Some LengthError
      else if \<not> MakeSmoothMesh_ints_fit (maxx s) (maxy s) (MakeSmoothMesh_winSize s)
      then Some IntOverflow
      else None)"

definition MakeSmoothMesh_passes :: "nat \<Rightarrow> terrain \<Rightarrow> SmoothHeightMesh \<Rightarrow> error + SmoothHeightMesh" where
  "MakeSmoothMesh_passes passes T s =
     (case MakeSmoothMesh_fault s of
        Some e \<Rightarrow> Inl e
      | None \<Rightarrow>
        (let origMesh0 = resize (origMesh s) ((maxx s + 1) * (maxy s + 1)) 0;
             (colsMaxima2, maximaRows2, mesh1) = MakeSmoothMesh_window T s [0..maxy s];
             (mesh2, origMesh2) =
                MakeSmoothMesh_blur passes T (maxx s) (maxy s) (MakeSmoothMesh_blurSize s)
                  (resolution s) (MakeSmoothMesh_kernel s) (mesh1, origMesh0)
         in Inr (s\<lparr>mesh := mesh2, origMesh := copy_into mesh2 origMesh2,
                   colsMaxima := colsMaxima2, maximaRows := maximaRows2\<rparr>)))"

definition MakeSmoothMesh :: "terrain \<Rightarrow> SmoothHeightMesh \<Rightarrow> error + SmoothHeightMesh" where
  "MakeSmoothMesh = MakeSmoothMesh_passes blurPassesCount"

text \<open>
  \<^verbatim>\<open>Init\<close> converts \<open>mx / res + 1\<close> and \<open>my / res + 1\<close> to \<^verbatim>\<open>int\<close>, stores its arguments, the
  radius through \<^verbatim>\<open>std::max(1.0f, smoothRad)\<close>, and builds the mesh.
\<close>

definition Init ::
  "terrain \<Rightarrow> SmoothHeightMesh \<Rightarrow> real \<Rightarrow> real \<Rightarrow> real \<Rightarrow> real \<Rightarrow> error + SmoothHeightMesh" where
  "Init T s mx my res smoothRad =
     (if res = 0 then Inl FloatToIntRange
      else if \<not> int_range (float_to_int (mx / res + 1)) then Inl FloatToIntRange
      else if \<not> int_range (float_to_int (my / res + 1)) then Inl FloatToIntRange
      else MakeSmoothMesh T
             (s\<lparr>fmaxx := mx, maxx := float_to_int (mx / res + 1),
                fmaxy := my, maxy := float_to_int (my / res + 1),
                resolution := res, smoothRadius := max 1 smoothRad\<rparr>))"

definition Kill :: "SmoothHeightMesh \<Rightarrow> SmoothHeightMesh" where
  "Kill s = s\<lparr>mesh := [], origMesh := []\<rparr>"

text \<open>
  The queries hand \<^verbatim>\<open>&mesh[0]\<close> to \<^verbatim>\<open>Interpolate\<close>; on an empty mesh each of its reads is
  outside the array.
\<close>

definition GetHeight :: "SmoothHeightMesh \<Rightarrow> real \<Rightarrow> real \<Rightarrow> error + real" where
  "GetHeight s x y = Interpolate x y (maxx s) (maxy s) (resolution s) (mesh s)"

definition GetHeightAboveWater :: "SmoothHeightMesh \<Rightarrow> real \<Rightarrow> real \<Rightarrow> error + real" where
  "GetHeightAboveWater s x y =
     (case Interpolate x y (maxx s) (maxy s) (resolution s) (mesh s) of
        Inl e \<Rightarrow> Inl e
      | Inr h \<Rightarrow> Inr (max 0 h))"

text \<open>
  The edits return the new value of the cell and the changed object.  An index outside the
  array is undefined in C++ and an error here.
\<close>

definition SetHeight :: "SmoothHeightMesh \<Rightarrow> int \<Rightarrow> real \<Rightarrow> error + real \<times> SmoothHeightMesh" where
  "SetHeight s index h =
     (if 0 \<le> index \<and> nat index < length (mesh s)
      then Inr (h, s\<lparr>mesh := (mesh s)[nat index := h]\<rparr>)
      else Inl OutOfBounds)"

definition AddHeight :: "SmoothHeightMesh \<Rightarrow> int \<Rightarrow> real \<Rightarrow> error + real \<times> SmoothHeightMesh" where
  "AddHeight s index h =
     (if 0 \<le> index \<and> nat index < length (mesh s)
      then Inr (mesh s ! nat index + h, s\<lparr>mesh := (mesh s)[nat index := mesh s ! nat index + h]\<rparr>)
      else Inl OutOfBounds)"

definition SetMaxHeight :: "SmoothHeightMesh \<Rightarrow> int \<Rightarrow> real \<Rightarrow> error + real \<times> SmoothHeightMesh" where
  "SetMaxHeight s index h =
     (if 0 \<le> index \<and> nat index < length (mesh s)
      then Inr (max h (mesh s ! nat index),
                s\<lparr>mesh := (mesh s)[nat index := max h (mesh s ! nat index)]\<rparr>)
      else Inl OutOfBounds)"

section \<open>Reference notions of the specification\<close>

text \<open>
  The true maximum of the terrain height over the grid points of a rectangle of columns
  \<open>x0..x1\<close> and rows \<open>y0..y1\<close>, by exhaustive search.
\<close>

definition trueMaximum :: "terrain \<Rightarrow> real \<Rightarrow> int \<Rightarrow> int \<Rightarrow> int \<Rightarrow> int \<Rightarrow> real" where
  "trueMaximum T res x0 x1 y0 y1 =
     Max ((\<lambda>(x, y). GetHeightReal T (of_int x * res) (of_int y * res)) ` ({x0..x1} \<times> {y0..y1}))"

text \<open>Bilinear interpolation of four corner values at the fractional position \<open>(u, v)\<close>.\<close>

definition bilinear :: "real \<Rightarrow> real \<Rightarrow> real \<Rightarrow> real \<Rightarrow> real \<Rightarrow> real \<Rightarrow> real" where
  "bilinear h00 h10 h01 h11 u v =
     (1 - u) * (1 - v) * h00 + u * (1 - v) * h10 + (1 - u) * v * h01 + u * v * h11"


text \<open>The true terrain height at the grid point of column \<open>x\<close> and row \<open>y\<close>.\<close>

definition height_at :: "terrain \<Rightarrow> real \<Rightarrow> int \<Rightarrow> int \<Rightarrow> real" where
  "height_at T res x y = GetHeightReal T (of_int x * res) (of_int y * res)"

text \<open>
  The value \<^verbatim>\<open>FindRadialMaximum\<close> computes in its local \<^verbatim>\<open>maxRowHeight\<close> for the
  column \<open>x\<close>.
\<close>

definition maxRowHeight :: "real list \<Rightarrow> int \<Rightarrow> int \<Rightarrow> int \<Rightarrow> real" where
  "maxRowHeight cm nx w x =
     fold (\<lambda>i maxRowHeight. max (cm ! nat i) maxRowHeight)
       [max (x - w) 0..min (nx - 1) (x + w)] (- FLT_MAX)"

text \<open>
  The blurred averages: the convolution of a row (a column) of the mesh with the symmetric
  kernel, the fetches clamped to the first \<open>maxx\<close> columns (\<open>maxy\<close> rows).
\<close>

definition blurred_h :: "real list \<Rightarrow> real list \<Rightarrow> int \<Rightarrow> int \<Rightarrow> int \<Rightarrow> int \<Rightarrow> real" where
  "blurred_h k m nx bs x y =
     (\<Sum>x1 = x - bs..x + bs. k ! nat \<bar>x1 - x\<bar> * m ! nat (max 0 (min (nx - 1) x1) + y * nx))"

definition blurred_v :: "real list \<Rightarrow> real list \<Rightarrow> int \<Rightarrow> int \<Rightarrow> int \<Rightarrow> int \<Rightarrow> int \<Rightarrow> real" where
  "blurred_v k m nx ny bs x y =
     (\<Sum>y1 = y - bs..y + bs. k ! nat \<bar>y1 - y\<bar> * m ! nat (x + max 0 (min (ny - 1) y1) * nx))"

text \<open>
  The invariant of the column maxima before row \<open>y\<close> is processed: \<open>colsMaxima[x]\<close> bounds
  the heights of column \<open>x\<close> over the rows \<open>y - winSize .. y + winSize\<close> that lie in
  \<open>0 .. maxy\<close>, and \<open>maximaRows[x]\<close> is a row of that range where the bound is reached, or
  nothing above \<open>- FLT_MAX\<close> has been seen yet.
\<close>

definition col_inv :: "terrain \<Rightarrow> real \<Rightarrow> int \<Rightarrow> int \<Rightarrow> int \<Rightarrow> int \<Rightarrow> real \<times> int \<Rightarrow> bool" where
  "col_inv T res ny w x y = (\<lambda>(c, r).
     (\<forall>j. max 0 (y - w) \<le> j \<and> j \<le> min ny (y + w) \<longrightarrow> height_at T res x j \<le> c)
     \<and> ((max 0 (y - w) \<le> r \<and> r \<le> min ny (y + w) \<and> height_at T res x r = c)
         \<or> (r = - 1 \<and> c = - FLT_MAX)))"

section \<open>Sample inputs\<close>

text \<open>A terrain of constant height \<open>H\<close>.\<close>

definition flat_terrain :: "real \<Rightarrow> terrain" where
  "flat_terrain H = \<lparr>GetHeightReal = (\<lambda>x z. H), GetCurrMinHeight = H, GetCurrMaxHeight = H\<rparr>"

text \<open>
  A terrain that is 10 along the line \<open>x = 16\<close>, 7 along the line \<open>z = 16\<close> and 0
  elsewhere.
\<close>

definition ridge_terrain :: terrain where
  "ridge_terrain = \<lparr>GetHeightReal = (\<lambda>x z. if x = 16 then 10 else if z = 16 then 7 else 0),
     GetCurrMinHeight = 0, GetCurrMaxHeight = 10\<rparr>"

text \<open>A fresh object, before \<^verbatim>\<open>Init\<close>.\<close>

definition unbuilt :: SmoothHeightMesh where
  "unbuilt = \<lparr>maxx = 0, maxy = 0, fmaxx = 0, fmaxy = 0, resolution = 0, smoothRadius = 0,
     mesh = [], origMesh = [], colsMaxima = [], maximaRows = []\<rparr>"

text \<open>
  An object as \<^verbatim>\<open>Init(8, 8, 8, 8)\<close> configures it before the build (\<open>winSize = 1\<close>), and one
  as \<^verbatim>\<open>Init(16, 16, 16, 8)\<close> configures it (\<open>winSize = 0\<close>).
\<close>

definition configured :: SmoothHeightMesh where
  "configured = \<lparr>maxx = 2, maxy = 2, fmaxx = 8, fmaxy = 8, resolution = 8, smoothRadius = 8,
     mesh = [], origMesh = [], colsMaxima = [], maximaRows = []\<rparr>"

definition coarse :: SmoothHeightMesh where
  "coarse = \<lparr>maxx = 2, maxy = 2, fmaxx = 16, fmaxy = 16, resolution = 16, smoothRadius = 8,
     mesh = [], origMesh = [], colsMaxima = [], maximaRows = []\<rparr>"

text \<open>A mesh of a grid with \<open>maxx = maxy = 2\<close>, its nine floats numbered by their position.\<close>

definition sample_mesh :: SmoothHeightMesh where
  "sample_mesh = \<lparr>maxx = 2, maxy = 2, fmaxx = 8, fmaxy = 8, resolution = 8, smoothRadius = 40,
     mesh = [0, 1, 2, 3, 4, 5, 6, 7, 8], origMesh = [0, 1, 2, 3, 4, 5, 6, 7, 8],
     colsMaxima = [0, 0, 0], maximaRows = [2, 2, 2]\<rparr>"

section \<open>Conversions and the range of an int\<close>

lemma int_range_iff: "int_range i \<longleftrightarrow> - 2147483648 \<le> i \<and> i \<le> 2147483647"
  by (simp add: int_range_def INT_MIN_def INT_MAX_def)

lemma float_to_int_minus_one: "float_to_int (- 1) = - 1"
  using ceiling_of_int [of "- 1", where ?'a = real] by (simp add: float_to_int_def)

lemma float_to_int_minus_three_halves: "float_to_int (- (3 / 2)) = - 1"
proof -
  have "\<lceil>- (3 / 2) :: real\<rceil> = - 1" by (simp add: ceiling_eq_iff)
  then show ?thesis by (simp add: float_to_int_def)
qed

section \<open>The query path\<close>

lemma Clamp_bounds: "lo \<le> hi \<Longrightarrow> lo \<le> Clamp v lo hi \<and> Clamp v lo hi \<le> hi"
  by (simp add: Clamp_def)

lemma float_to_int_nonneg: "0 \<le> r \<Longrightarrow> float_to_int r = \<lfloor>r\<rfloor>"
  by (simp add: float_to_int_def)

lemma cell_of_Clamp:
  assumes "1 \<le> n"
  shows "0 \<le> float_to_int (Clamp v 0 (of_int n - 1)) \<and> float_to_int (Clamp v 0 (of_int n - 1)) \<le> n - 1"
proof -
  let ?c = "Clamp v 0 (of_int n - 1)"
  have b: "0 \<le> ?c \<and> ?c \<le> of_int n - 1"
    using assms Clamp_bounds [of 0 "of_int n - 1" v] by simp
  have "\<lfloor>?c\<rfloor> \<le> \<lfloor>(of_int (n - 1))::real\<rfloor>"
    by (rule floor_mono) (use b in simp)
  then show ?thesis using b by (simp add: float_to_int_nonneg)
qed

lemma flat_index_bounds:
  assumes "0 \<le> a" "a \<le> n - 1" "0 \<le> b" "b \<le> m - 1" "1 \<le> (n::int)" "1 \<le> m"
  shows "0 \<le> a + b * n \<and> nat (a + b * n) < nat ((n + 1) * (m + 1)) \<and> a + b * n \<le> n * m - 1"
proof -
  have "b * n \<le> (m - 1) * n" using assms by (intro mult_right_mono) auto
  then have le: "a + b * n \<le> n * m - 1" using assms by (simp add: algebra_simps)
  have "0 \<le> b * n" using assms by simp
  then have ge: "0 \<le> a + b * n" using assms by simp
  have "n * m - 1 < (n + 1) * (m + 1)" using assms by (simp add: algebra_simps)
  then show ?thesis using le ge by linarith
qed

lemma read_at_Inr: "0 \<le> i \<Longrightarrow> nat i < length hm \<Longrightarrow> read_at hm i = Inr (hm ! nat i)"
  by (simp add: read_at_def)

lemma mix_bilinear: "mix (mix h1 h2 u) (mix h3 h4 u) v = bilinear h1 h2 h3 h4 u v"
  by (simp add: mix_def bilinear_def algebra_simps)

lemma Interpolate_Inr:
  fixes x y res :: real
  assumes len: "length hm = nat ((n + 1) * (m + 1))" and n: "1 \<le> n" and m: "1 \<le> m"
  defines "cx \<equiv> Clamp (x / res) 0 (of_int n - 1)"
    and "cy \<equiv> Clamp (y / res) 0 (of_int m - 1)"
  defines "sx \<equiv> float_to_int cx" and "sy \<equiv> float_to_int cy"
  defines "sxp1 \<equiv> min (sx + 1) (n - 1)" and "syp1 \<equiv> min (sy + 1) (m - 1)"
  shows "Interpolate x y n m res hm =
           Inr (bilinear (hm ! nat (sx + sy * n)) (hm ! nat (sxp1 + sy * n))
                         (hm ! nat (sx + syp1 * n)) (hm ! nat (sxp1 + syp1 * n))
                         (cx - of_int sx) (cy - of_int sy))"
proof -
  have sx: "0 \<le> sx \<and> sx \<le> n - 1" unfolding sx_def cx_def by (rule cell_of_Clamp [OF n])
  have sy: "0 \<le> sy \<and> sy \<le> m - 1" unfolding sy_def cy_def by (rule cell_of_Clamp [OF m])
  have sxp1: "0 \<le> sxp1 \<and> sxp1 \<le> n - 1" using sx n by (simp add: sxp1_def)
  have syp1: "0 \<le> syp1 \<and> syp1 \<le> m - 1" using sy m by (simp add: syp1_def)
  have r1: "read_at hm (sx + sy * n) = Inr (hm ! nat (sx + sy * n))"
    using flat_index_bounds [of sx n sy m] sx sy n m len by (intro read_at_Inr) auto
  have r2: "read_at hm (sxp1 + sy * n) = Inr (hm ! nat (sxp1 + sy * n))"
    using flat_index_bounds [of sxp1 n sy m] sxp1 sy n m len by (intro read_at_Inr) auto
  have r3: "read_at hm (sx + syp1 * n) = Inr (hm ! nat (sx + syp1 * n))"
    using flat_index_bounds [of sx n syp1 m] sx syp1 n m len by (intro read_at_Inr) auto
  have r4: "read_at hm (sxp1 + syp1 * n) = Inr (hm ! nat (sxp1 + syp1 * n))"
    using flat_index_bounds [of sxp1 n syp1 m] sxp1 syp1 n m len by (intro read_at_Inr) auto
  show ?thesis
    unfolding Interpolate_def Let_def
    using r1 r2 r3 r4
    by (simp add: sx_def sy_def sxp1_def syp1_def cx_def cy_def mix_bilinear)
qed





text \<open>
  C10: on a built mesh (\<open>(maxx + 1) * (maxy + 1)\<close> elements, \<open>maxx\<close> and \<open>maxy\<close> at least 1)
  the cell indices that \<^verbatim>\<open>Interpolate\<close> computes lie in \<open>[0, maxx - 1]\<close> and
  \<open>[0, maxy - 1]\<close>, each of its four reads is inside the array, and \<^verbatim>\<open>GetHeight\<close> and
  \<^verbatim>\<open>GetHeightAboveWater\<close> return a value for every coordinate.
\<close>

theorem queries_read_in_bounds:
  fixes x z :: real
  assumes len: "length (mesh s) = nat ((maxx s + 1) * (maxy s + 1))"
    and nx: "1 \<le> maxx s" and ny: "1 \<le> maxy s" and res: "resolution s \<noteq> 0"
  defines "sx \<equiv> float_to_int (Clamp (x / resolution s) 0 (of_int (maxx s) - 1))"
    and "sy \<equiv> float_to_int (Clamp (z / resolution s) 0 (of_int (maxy s) - 1))"
  defines "sxp1 \<equiv> min (sx + 1) (maxx s - 1)" and "syp1 \<equiv> min (sy + 1) (maxy s - 1)"
  shows "0 \<le> sx \<and> sx \<le> maxx s - 1 \<and> 0 \<le> sxp1 \<and> sxp1 \<le> maxx s - 1
         \<and> 0 \<le> sy \<and> sy \<le> maxy s - 1 \<and> 0 \<le> syp1 \<and> syp1 \<le> maxy s - 1
         \<and> read_at (mesh s) (sx + sy * maxx s) = Inr (mesh s ! nat (sx + sy * maxx s))
         \<and> read_at (mesh s) (sxp1 + sy * maxx s) = Inr (mesh s ! nat (sxp1 + sy * maxx s))
         \<and> read_at (mesh s) (sx + syp1 * maxx s) = Inr (mesh s ! nat (sx + syp1 * maxx s))
         \<and> read_at (mesh s) (sxp1 + syp1 * maxx s) = Inr (mesh s ! nat (sxp1 + syp1 * maxx s))
         \<and> (\<exists>h. GetHeight s x z = Inr h) \<and> (\<exists>h. GetHeightAboveWater s x z = Inr h)"
proof -
  have sx: "0 \<le> sx \<and> sx \<le> maxx s - 1" unfolding sx_def by (rule cell_of_Clamp [OF nx])
  have sy: "0 \<le> sy \<and> sy \<le> maxy s - 1" unfolding sy_def by (rule cell_of_Clamp [OF ny])
  have sxp1: "0 \<le> sxp1 \<and> sxp1 \<le> maxx s - 1" using sx nx by (simp add: sxp1_def)
  have syp1: "0 \<le> syp1 \<and> syp1 \<le> maxy s - 1" using sy ny by (simp add: syp1_def)
  have r1: "read_at (mesh s) (sx + sy * maxx s) = Inr (mesh s ! nat (sx + sy * maxx s))"
    using flat_index_bounds [of sx "maxx s" sy "maxy s"] sx sy nx ny len
    by (intro read_at_Inr) auto
  have r2: "read_at (mesh s) (sxp1 + sy * maxx s) = Inr (mesh s ! nat (sxp1 + sy * maxx s))"
    using flat_index_bounds [of sxp1 "maxx s" sy "maxy s"] sxp1 sy nx ny len
    by (intro read_at_Inr) auto
  have r3: "read_at (mesh s) (sx + syp1 * maxx s) = Inr (mesh s ! nat (sx + syp1 * maxx s))"
    using flat_index_bounds [of sx "maxx s" syp1 "maxy s"] sx syp1 nx ny len
    by (intro read_at_Inr) auto
  have r4: "read_at (mesh s) (sxp1 + syp1 * maxx s) = Inr (mesh s ! nat (sxp1 + syp1 * maxx s))"
    using flat_index_bounds [of sxp1 "maxx s" syp1 "maxy s"] sxp1 syp1 nx ny len
    by (intro read_at_Inr) auto
  have g: "\<exists>h. Interpolate x z (maxx s) (maxy s) (resolution s) (mesh s) = Inr h"
    using Interpolate_Inr [OF len nx ny, where x = x and y = z and res = "resolution s"] by blast
  have g1: "\<exists>h. GetHeight s x z = Inr h" using g by (simp add: GetHeight_def)
  have g2: "\<exists>h. GetHeightAboveWater s x z = Inr h"
    using g by (auto simp: GetHeightAboveWater_def)
  show ?thesis using sx sy sxp1 syp1 r1 r2 r3 r4 g1 g2 by blast
qed

theorem queries_read_in_bounds_witness:
  "length (mesh sample_mesh) = nat ((maxx sample_mesh + 1) * (maxy sample_mesh + 1))
   \<and> 1 \<le> maxx sample_mesh \<and> 1 \<le> maxy sample_mesh \<and> resolution sample_mesh \<noteq> 0
   \<and> (\<exists>h. GetHeight sample_mesh 100 (- 3) = Inr h)
   \<and> (\<exists>h. GetHeightAboveWater sample_mesh 100 (- 3) = Inr h)"
  using queries_read_in_bounds [of sample_mesh 100 "- 3"]
  by (simp add: sample_mesh_def)

section \<open>Edits of single cells\<close>

text \<open>
  C8: \<^verbatim>\<open>AddHeight(i, h)\<close> at a valid index adds \<open>h\<close> to the cell \<open>i\<close>, returns the new
  value, and leaves every other cell, the length of the mesh, the grid dimensions, the
  resolution and \<open>origMesh\<close> as they were.
\<close>

theorem AddHeight_frame:
  assumes "0 \<le> i" "nat i < length (mesh s)"
  shows "\<exists>s'. AddHeight s i h = Inr (mesh s ! nat i + h, s')
           \<and> mesh s' ! nat i = mesh s ! nat i + h
           \<and> (\<forall>j. j \<noteq> nat i \<longrightarrow> mesh s' ! j = mesh s ! j)
           \<and> length (mesh s') = length (mesh s)
           \<and> maxx s' = maxx s \<and> maxy s' = maxy s \<and> fmaxx s' = fmaxx s \<and> fmaxy s' = fmaxy s
           \<and> resolution s' = resolution s \<and> smoothRadius s' = smoothRadius s
           \<and> origMesh s' = origMesh s
           \<and> colsMaxima s' = colsMaxima s \<and> maximaRows s' = maximaRows s"
  using assms by (simp add: AddHeight_def)

theorem AddHeight_frame_witness:
  "(0::int) \<le> 4 \<and> nat 4 < length (mesh sample_mesh)
   \<and> (\<exists>s'. AddHeight sample_mesh 4 10 = Inr (14, s')
         \<and> mesh s' = [0, 1, 2, 3, 14, 5, 6, 7, 8]
         \<and> origMesh s' = origMesh sample_mesh)"
proof -
  have h: "(0::int) \<le> 4" "nat 4 < length (mesh sample_mesh)" by (simp_all add: sample_mesh_def)
  obtain s' where s': "AddHeight sample_mesh 4 10 = Inr (mesh sample_mesh ! nat 4 + 10, s')"
    "origMesh s' = origMesh sample_mesh"
    using AddHeight_frame [OF h, of 10] by blast
  have "mesh s' = [0, 1, 2, 3, 14, 5, 6, 7, 8]"
    using s'(1) by (auto simp: AddHeight_def sample_mesh_def)
  moreover have "mesh sample_mesh ! nat 4 + 10 = 14" by (simp add: sample_mesh_def)
  ultimately show ?thesis using h s' by auto
qed

text \<open>
  C9: \<^verbatim>\<open>SetMaxHeight(i, h)\<close> at a valid index sets the cell to the maximum of \<open>h\<close> and its
  old value and returns it; the cell does not decrease, the other cells stay, a second call
  with the same \<open>h\<close> changes nothing, and the call changes nothing when \<open>h\<close> is at most
  the value of the cell.
\<close>

theorem SetMaxHeight_max:
  assumes "0 \<le> i" "nat i < length (mesh s)"
  shows "\<exists>s'. SetMaxHeight s i h = Inr (max h (mesh s ! nat i), s')
           \<and> mesh s' ! nat i = max h (mesh s ! nat i)
           \<and> mesh s ! nat i \<le> mesh s' ! nat i
           \<and> (\<forall>j. j \<noteq> nat i \<longrightarrow> mesh s' ! j = mesh s ! j)
           \<and> length (mesh s') = length (mesh s)
           \<and> SetMaxHeight s' i h = Inr (max h (mesh s ! nat i), s')
           \<and> (h \<le> mesh s ! nat i \<longrightarrow> s' = s)"
  using assms by (simp add: SetMaxHeight_def max_absorb2)

theorem SetMaxHeight_max_witness:
  "(0::int) \<le> 4 \<and> nat 4 < length (mesh sample_mesh)
   \<and> (\<exists>s'. SetMaxHeight sample_mesh 4 10 = Inr (10, s')
         \<and> SetMaxHeight s' 4 10 = Inr (10, s'))
   \<and> SetMaxHeight sample_mesh 4 3 = Inr (4, sample_mesh)"
proof -
  have h: "(0::int) \<le> 4" "nat 4 < length (mesh sample_mesh)" by (simp_all add: sample_mesh_def)
  have v: "mesh sample_mesh ! nat 4 = 4" by (simp add: sample_mesh_def)
  have a: "\<exists>s'. SetMaxHeight sample_mesh 4 10 = Inr (10, s') \<and> SetMaxHeight s' 4 10 = Inr (10, s')"
    using SetMaxHeight_max [OF h, of 10] v by auto
  have b: "SetMaxHeight sample_mesh 4 3 = Inr (4, sample_mesh)"
    using SetMaxHeight_max [OF h, of 3] v by auto
  show ?thesis using h a b by blast
qed


section \<open>Init\<close>

lemma MakeSmoothMesh_ints_fit_iff:
  "MakeSmoothMesh_ints_fit nx ny w \<longleftrightarrow>
     (\<forall>y. 0 \<le> y \<and> y \<le> ny \<longrightarrow>
        int_range (y + w) \<and> int_range (y + w + 1)
        \<and> (\<forall>x. 0 \<le> x \<and> x \<le> nx - 1 \<longrightarrow> int_range (x - w) \<and> int_range (x + w))
        \<and> (\<forall>x. 0 \<le> x \<and> x \<le> nx \<longrightarrow> int_range (y - w) \<and> int_range (y - w + 1)))"
  unfolding MakeSmoothMesh_ints_fit_def list_all_iff Ball_def set_upto atLeastAtMost_iff
  by blast

lemma MakeSmoothMesh_ints_fitI:
  assumes "0 \<le> w" "nx + ny + w + 1 \<le> INT_MAX" "0 \<le> nx" "0 \<le> ny"
  shows "MakeSmoothMesh_ints_fit nx ny w"
  using assms unfolding MakeSmoothMesh_ints_fit_iff int_range_iff INT_MAX_def by auto

lemma MakeSmoothMesh_passes_Inl:
  assumes "MakeSmoothMesh_passes n T s = Inl e"
  shows "MakeSmoothMesh_fault s = Some e"
  using assms by (auto simp: MakeSmoothMesh_passes_def Let_def split_def split: option.splits)

lemma MakeSmoothMesh_passes_Inr:
  assumes "MakeSmoothMesh_passes n T s = Inr s'"
  shows "MakeSmoothMesh_fault s = None"
  using assms by (auto simp: MakeSmoothMesh_passes_def Let_def split_def split: option.splits)

lemma MakeSmoothMesh_passes_Inr_fields:
  assumes "MakeSmoothMesh_passes n T s = Inr s'"
  shows "maxx s' = maxx s \<and> maxy s' = maxy s \<and> fmaxx s' = fmaxx s \<and> fmaxy s' = fmaxy s
         \<and> resolution s' = resolution s \<and> smoothRadius s' = smoothRadius s"
  using assms by (auto simp: MakeSmoothMesh_passes_def Let_def split_def split: option.splits)

lemma MakeSmoothMesh_passes_total:
  assumes "MakeSmoothMesh_fault s = None"
  shows "\<exists>s'. MakeSmoothMesh_passes n T s = Inr s'"
  using assms by (simp add: MakeSmoothMesh_passes_def Let_def split_def)

lemma MakeSmoothMesh_passes_mesh:
  assumes "MakeSmoothMesh_fault s = None"
  shows "MakeSmoothMesh_passes n T s = Inr (projr (MakeSmoothMesh_passes n T s))"
    and "mesh (projr (MakeSmoothMesh_passes n T s)) =
           fst (MakeSmoothMesh_blur n T (maxx s) (maxy s) (MakeSmoothMesh_blurSize s) (resolution s)
                  (MakeSmoothMesh_kernel s)
                  (snd (snd (MakeSmoothMesh_window T s [0..maxy s])),
                   resize (origMesh s) ((maxx s + 1) * (maxy s + 1)) 0))"
    and "colsMaxima (projr (MakeSmoothMesh_passes n T s)) = fst (MakeSmoothMesh_window T s [0..maxy s])"
  using assms by (simp_all add: MakeSmoothMesh_passes_def Let_def split_def)

lemma MakeSmoothMesh_fault_Some:
  assumes "MakeSmoothMesh_fault s = Some e"
  shows "(e = FloatToIntRange
            \<and> (resolution s = 0 \<or> \<not> int_range (MakeSmoothMesh_winSize s)))
         \<or> (e = IntOverflow \<and> resolution s \<noteq> 0
            \<and> (\<not> int_range (maxx s + 1) \<or> \<not> int_range (maxy s + 1)
                \<or> \<not> int_range ((maxx s + 1) * (maxy s + 1))
                \<or> \<not> MakeSmoothMesh_ints_fit (maxx s) (maxy s) (MakeSmoothMesh_winSize s)))
         \<or> (e = LengthError \<and> resolution s \<noteq> 0
            \<and> ((maxx s + 1) * (maxy s + 1) < 0 \<or> maxx s + 1 < 0))"
  using assms
  by (auto simp: MakeSmoothMesh_fault_def MakeSmoothMesh_winSize_def split: if_splits)

lemma MakeSmoothMesh_fault_None:
  assumes res: "resolution s \<noteq> 0" and w: "0 \<le> MakeSmoothMesh_winSize s"
    and nx: "0 \<le> maxx s" and ny: "0 \<le> maxy s"
    and size: "(maxx s + 1) * (maxy s + 1) \<le> INT_MAX"
    and sum: "maxx s + maxy s + MakeSmoothMesh_winSize s + 1 \<le> INT_MAX"
  shows "MakeSmoothMesh_fault s = None"
proof -
  have p0: "0 \<le> (maxx s + 1) * (maxy s + 1)" using nx ny by simp
  have "(maxx s + 1) * 1 \<le> (maxx s + 1) * (maxy s + 1)"
    using nx ny by (intro mult_left_mono) auto
  then have x1: "maxx s + 1 \<le> INT_MAX" using size by simp
  have "1 * (maxy s + 1) \<le> (maxx s + 1) * (maxy s + 1)"
    using nx ny by (intro mult_right_mono) auto
  then have y1: "maxy s + 1 \<le> INT_MAX" using size by simp
  have r: "int_range (maxx s + 1)" "int_range (maxy s + 1)" "int_range ((maxx s + 1) * (maxy s + 1))"
    "int_range (MakeSmoothMesh_winSize s)"
    using nx ny w x1 y1 p0 size sum unfolding int_range_def INT_MIN_def INT_MAX_def
    by linarith+
  have f: "MakeSmoothMesh_ints_fit (maxx s) (maxy s) (MakeSmoothMesh_winSize s)"
    by (rule MakeSmoothMesh_ints_fitI [OF w sum nx ny])
  show ?thesis
    using res r f p0 nx
    by (simp add: MakeSmoothMesh_fault_def MakeSmoothMesh_winSize_def [symmetric] not_less)
qed

lemma float_to_int_extent:
  assumes "0 < res" "0 \<le> mx"
  shows "float_to_int (mx / res + 1) = \<lfloor>mx / res\<rfloor> + 1"
proof -
  have "0 \<le> mx / res + 1" using assms by simp
  then show ?thesis by (simp add: float_to_int_def)
qed

lemma Init_eq:
  assumes "res \<noteq> 0" "int_range (float_to_int (mx / res + 1))" "int_range (float_to_int (my / res + 1))"
  shows "Init T s mx my res smoothRad =
           MakeSmoothMesh_passes blurPassesCount T
             (s\<lparr>fmaxx := mx, maxx := float_to_int (mx / res + 1),
                fmaxy := my, maxy := float_to_int (my / res + 1),
                resolution := res, smoothRadius := max 1 smoothRad\<rparr>)"
  using assms by (simp add: Init_def MakeSmoothMesh_def)

lemma Init_Inl:
  fixes mx my res smoothRad :: real
  defines "nx \<equiv> float_to_int (mx / res + 1)" and "ny \<equiv> float_to_int (my / res + 1)"
    and "w \<equiv> float_to_int (max 1 smoothRad / res)"
  assumes "Init T s mx my res smoothRad = Inl e"
  shows "(e = FloatToIntRange
            \<and> (res = 0 \<or> \<not> int_range nx \<or> \<not> int_range ny \<or> \<not> int_range w))
         \<or> (e = IntOverflow \<and> res \<noteq> 0
            \<and> (\<not> int_range (nx + 1) \<or> \<not> int_range (ny + 1) \<or> \<not> int_range ((nx + 1) * (ny + 1))
                \<or> \<not> MakeSmoothMesh_ints_fit nx ny w))
         \<or> (e = LengthError \<and> res \<noteq> 0 \<and> ((nx + 1) * (ny + 1) < 0 \<or> nx + 1 < 0))"
proof (cases "res \<noteq> 0 \<and> int_range nx \<and> int_range ny")
  case False
  then have "e = FloatToIntRange"
    using assms(4) by (auto simp: Init_def nx_def ny_def split: if_splits)
  then show ?thesis using False by blast
next
  case True
  let ?cfg = "s\<lparr>fmaxx := mx, maxx := nx, fmaxy := my, maxy := ny,
                 resolution := res, smoothRadius := max 1 smoothRad\<rparr>"
  have "Init T s mx my res smoothRad = MakeSmoothMesh_passes blurPassesCount T ?cfg"
    unfolding nx_def ny_def using True by (intro Init_eq) (simp_all add: nx_def ny_def)
  then have "MakeSmoothMesh_fault ?cfg = Some e"
    using assms(4) MakeSmoothMesh_passes_Inl by simp
  from MakeSmoothMesh_fault_Some [OF this] show ?thesis
    using True by (auto simp: MakeSmoothMesh_winSize_def w_def)
qed

lemma Init_Inr:
  assumes "Init T s mx my res smoothRad = Inr s'"
  shows "smoothRadius s' = max 1 smoothRad \<and> resolution s' = res
         \<and> maxx s' = float_to_int (mx / res + 1) \<and> maxy s' = float_to_int (my / res + 1)
         \<and> fmaxx s' = mx \<and> fmaxy s' = my \<and> res \<noteq> 0"
proof -
  have ok: "res \<noteq> 0" "int_range (float_to_int (mx / res + 1))" "int_range (float_to_int (my / res + 1))"
    using assms by (auto simp: Init_def split: if_splits)
  from assms [unfolded Init_eq [OF ok]] MakeSmoothMesh_passes_Inr_fields
  show ?thesis using ok(1) by fastforce
qed

lemma Init_total:
  fixes mx my res smoothRad :: real
  assumes res: "0 < res" and mx: "0 \<le> mx" and my: "0 \<le> my"
    and size: "(\<lfloor>mx / res\<rfloor> + 2) * (\<lfloor>my / res\<rfloor> + 2) \<le> INT_MAX"
    and sum: "\<lfloor>mx / res\<rfloor> + \<lfloor>my / res\<rfloor> + \<lfloor>max 1 smoothRad / res\<rfloor> + 3 \<le> INT_MAX"
  shows "\<exists>s'. Init T s mx my res smoothRad = Inr s'"
proof -
  let ?fx = "\<lfloor>mx / res\<rfloor>" and ?fy = "\<lfloor>my / res\<rfloor>" and ?w = "\<lfloor>max 1 smoothRad / res\<rfloor>"
  have nx: "float_to_int (mx / res + 1) = ?fx + 1" by (rule float_to_int_extent [OF res mx])
  have ny: "float_to_int (my / res + 1) = ?fy + 1" by (rule float_to_int_extent [OF res my])
  have f0: "0 \<le> ?fx" "0 \<le> ?fy" using res mx my by simp_all
  have q: "0 \<le> max 1 smoothRad / res" using res by simp
  have w0: "0 \<le> ?w" using q by simp
  have wq: "float_to_int (max 1 smoothRad / res) = ?w" using q by (simp add: float_to_int_def)
  have r: "int_range (float_to_int (mx / res + 1))" "int_range (float_to_int (my / res + 1))"
    unfolding nx ny using f0 w0 sum unfolding int_range_def INT_MIN_def INT_MAX_def
    by linarith+
  let ?cfg = "s\<lparr>fmaxx := mx, maxx := float_to_int (mx / res + 1),
                fmaxy := my, maxy := float_to_int (my / res + 1),
                resolution := res, smoothRadius := max 1 smoothRad\<rparr>"
  have I: "Init T s mx my res smoothRad = MakeSmoothMesh_passes blurPassesCount T ?cfg"
    using res r by (intro Init_eq) simp_all
  have wc: "MakeSmoothMesh_winSize ?cfg = ?w" by (simp add: MakeSmoothMesh_winSize_def wq)
  have mc: "maxx ?cfg + 1 = ?fx + 2" "maxy ?cfg + 1 = ?fy + 2" by (simp_all add: nx ny)
  have "MakeSmoothMesh_fault ?cfg = None"
  proof (rule MakeSmoothMesh_fault_None)
    show "resolution ?cfg \<noteq> 0" using res by simp
    show "0 \<le> MakeSmoothMesh_winSize ?cfg" unfolding wc by (rule w0)
    show "0 \<le> maxx ?cfg" "0 \<le> maxy ?cfg" using f0 by (simp_all add: nx ny)
    show "(maxx ?cfg + 1) * (maxy ?cfg + 1) \<le> INT_MAX" unfolding mc by (rule size)
    show "maxx ?cfg + maxy ?cfg + MakeSmoothMesh_winSize ?cfg + 1 \<le> INT_MAX"
      unfolding wc using sum by (simp add: nx ny)
  qed
  from MakeSmoothMesh_passes_total [OF this] show ?thesis unfolding I .
qed

lemma unbuilt_simps:
  "mesh unbuilt = []" "origMesh unbuilt = []"
  by (simp_all add: unbuilt_def)

lemma Init_negative_resolution:
  "\<exists>s'. Init T unbuilt 4 4 (- 2) 3 = Inr s'"
proof -
  let ?cfg = "unbuilt\<lparr>fmaxx := 4, maxx := float_to_int (4 / (- 2) + 1),
                fmaxy := 4, maxy := float_to_int (4 / (- 2) + 1),
                resolution := - 2, smoothRadius := max 1 3\<rparr>"
  have I: "Init T unbuilt 4 4 (- 2) 3 = MakeSmoothMesh_passes blurPassesCount T ?cfg"
    by (rule Init_eq) (simp_all add: float_to_int_minus_one int_range_iff)
  have "MakeSmoothMesh_fault ?cfg = None"
    by (simp add: MakeSmoothMesh_fault_def MakeSmoothMesh_winSize_def float_to_int_minus_one
        float_to_int_minus_three_halves int_range_iff MakeSmoothMesh_ints_fit_iff)
  from MakeSmoothMesh_passes_total [OF this] show ?thesis unfolding I .
qed

text \<open>
  C3, as the specification states it, fails: \<^verbatim>\<open>Init(2, 2, 1, smoothRad)\<close> on a fresh object
  with a smoothing radius of \<open>- 5\<close> or \<open>0\<close> returns, and the object it returns has the radius 1;
  \<^verbatim>\<open>Init(4, 4, -2, 3)\<close> returns as well, with the resolution \<open>- 2\<close> stored.
\<close>

theorem Init_clamps_radius_silently:
  "\<not> isl (Init (flat_terrain 0) unbuilt 2 2 1 (- 5))
   \<and> smoothRadius (projr (Init (flat_terrain 0) unbuilt 2 2 1 (- 5))) = 1
   \<and> \<not> isl (Init (flat_terrain 0) unbuilt 2 2 1 0)
   \<and> smoothRadius (projr (Init (flat_terrain 0) unbuilt 2 2 1 0)) = 1
   \<and> \<not> isl (Init (flat_terrain 0) unbuilt 4 4 (- 2) 3)
   \<and> resolution (projr (Init (flat_terrain 0) unbuilt 4 4 (- 2) 3)) = - 2"
proof -
  have t: "\<exists>s'. Init (flat_terrain 0) unbuilt 2 2 1 r = Inr s'" if "r \<le> 1" for r :: real
  proof (rule Init_total)
    have "max 1 r = 1" using that by simp
    then show "\<lfloor>2 / 1 :: real\<rfloor> + \<lfloor>2 / 1 :: real\<rfloor> + \<lfloor>max 1 r / 1\<rfloor> + 3 \<le> INT_MAX"
      by (simp add: INT_MAX_def)
  qed (simp_all add: INT_MAX_def)
  obtain a where a: "Init (flat_terrain 0) unbuilt 2 2 1 (- 5) = Inr a" using t [of "- 5"] by auto
  obtain b where b: "Init (flat_terrain 0) unbuilt 2 2 1 0 = Inr b" using t [of 0] by auto
  obtain c where c: "Init (flat_terrain 0) unbuilt 4 4 (- 2) 3 = Inr c"
    using Init_negative_resolution by blast
  show ?thesis
    using Init_Inr [OF a] Init_Inr [OF b] Init_Inr [OF c] by (simp add: a b c)
qed

text \<open>
  C3, amended: \<^verbatim>\<open>Init\<close> checks none of its arguments.  It fails only where its arithmetic
  has no defined result or a buffer size is negative: a conversion to \<^verbatim>\<open>int\<close> out of range
  (with it every division by a resolution of zero), a signed overflow in the sizes or in
  the loops, a \<^verbatim>\<open>resize\<close> to a negative size.  When it returns, the radius it stored is
  \<open>max 1 smoothRad\<close>, so a radius below 1 is replaced by 1 without a diagnostic, and the
  resolution is the one given, whatever its sign.  With a positive resolution, extents
  that are not negative and sizes that fit an \<^verbatim>\<open>int\<close>, it returns for every radius.
\<close>

theorem Init_no_validation:
  fixes mx my res smoothRad :: real
  defines "nx \<equiv> float_to_int (mx / res + 1)" and "ny \<equiv> float_to_int (my / res + 1)"
    and "w \<equiv> float_to_int (max 1 smoothRad / res)"
  shows "(Init T s mx my res smoothRad = Inl e \<longrightarrow>
            (e = FloatToIntRange
               \<and> (res = 0 \<or> \<not> int_range nx \<or> \<not> int_range ny \<or> \<not> int_range w))
            \<or> (e = IntOverflow \<and> res \<noteq> 0
               \<and> (\<not> int_range (nx + 1) \<or> \<not> int_range (ny + 1)
                   \<or> \<not> int_range ((nx + 1) * (ny + 1)) \<or> \<not> MakeSmoothMesh_ints_fit nx ny w))
            \<or> (e = LengthError \<and> res \<noteq> 0 \<and> ((nx + 1) * (ny + 1) < 0 \<or> nx + 1 < 0)))
         \<and> (Init T s mx my res smoothRad = Inr s' \<longrightarrow>
              smoothRadius s' = max 1 smoothRad \<and> resolution s' = res
              \<and> maxx s' = nx \<and> maxy s' = ny \<and> fmaxx s' = mx \<and> fmaxy s' = my)
         \<and> (0 < res \<and> 0 \<le> mx \<and> 0 \<le> my
              \<and> (\<lfloor>mx / res\<rfloor> + 2) * (\<lfloor>my / res\<rfloor> + 2) \<le> INT_MAX
              \<and> \<lfloor>mx / res\<rfloor> + \<lfloor>my / res\<rfloor> + \<lfloor>max 1 smoothRad / res\<rfloor> + 3 \<le> INT_MAX \<longrightarrow>
              (\<exists>s''. Init T s mx my res smoothRad = Inr s'' \<and> smoothRadius s'' = max 1 smoothRad
                 \<and> resolution s'' = res
                 \<and> maxx s'' = \<lfloor>mx / res\<rfloor> + 1 \<and> maxy s'' = \<lfloor>my / res\<rfloor> + 1))"
proof -
  have a: "Init T s mx my res smoothRad = Inl e \<longrightarrow>
            (e = FloatToIntRange
               \<and> (res = 0 \<or> \<not> int_range nx \<or> \<not> int_range ny \<or> \<not> int_range w))
            \<or> (e = IntOverflow \<and> res \<noteq> 0
               \<and> (\<not> int_range (nx + 1) \<or> \<not> int_range (ny + 1)
                   \<or> \<not> int_range ((nx + 1) * (ny + 1)) \<or> \<not> MakeSmoothMesh_ints_fit nx ny w))
            \<or> (e = LengthError \<and> res \<noteq> 0 \<and> ((nx + 1) * (ny + 1) < 0 \<or> nx + 1 < 0))"
    unfolding nx_def ny_def w_def by (intro impI Init_Inl)
  have b: "Init T s mx my res smoothRad = Inr s' \<longrightarrow>
              smoothRadius s' = max 1 smoothRad \<and> resolution s' = res
              \<and> maxx s' = nx \<and> maxy s' = ny \<and> fmaxx s' = mx \<and> fmaxy s' = my"
    unfolding nx_def ny_def using Init_Inr [of T s mx my res smoothRad s'] by blast
  have c: "\<exists>s''. Init T s mx my res smoothRad = Inr s'' \<and> smoothRadius s'' = max 1 smoothRad
                 \<and> resolution s'' = res
                 \<and> maxx s'' = \<lfloor>mx / res\<rfloor> + 1 \<and> maxy s'' = \<lfloor>my / res\<rfloor> + 1"
    if h: "0 < res \<and> 0 \<le> mx \<and> 0 \<le> my
              \<and> (\<lfloor>mx / res\<rfloor> + 2) * (\<lfloor>my / res\<rfloor> + 2) \<le> INT_MAX
              \<and> \<lfloor>mx / res\<rfloor> + \<lfloor>my / res\<rfloor> + \<lfloor>max 1 smoothRad / res\<rfloor> + 3 \<le> INT_MAX"
  proof -
    obtain s'' where s'': "Init T s mx my res smoothRad = Inr s''"
      using Init_total [of res mx my smoothRad T s] h by blast
    from Init_Inr [OF s''] s'' show ?thesis
      using h by (auto simp: float_to_int_extent)
  qed
  show ?thesis using a b c by blast
qed

theorem Init_no_validation_witness:
  "(0::real) < 1 \<and> (0::real) \<le> 2
   \<and> (\<lfloor>2 / 1 :: real\<rfloor> + 2) * (\<lfloor>2 / 1 :: real\<rfloor> + 2) \<le> INT_MAX
   \<and> \<lfloor>2 / 1 :: real\<rfloor> + \<lfloor>2 / 1 :: real\<rfloor> + \<lfloor>max 1 (- 5) / 1 :: real\<rfloor> + 3 \<le> INT_MAX
   \<and> (\<exists>s''. Init (flat_terrain 0) unbuilt 2 2 1 (- 5) = Inr s'' \<and> smoothRadius s'' = 1
         \<and> resolution s'' = 1 \<and> maxx s'' = 3 \<and> maxy s'' = 3)"
proof -
  have h: "(0::real) < 1 \<and> (0::real) \<le> 2 \<and> (0::real) \<le> 2
              \<and> (\<lfloor>2 / 1 :: real\<rfloor> + 2) * (\<lfloor>2 / 1 :: real\<rfloor> + 2) \<le> INT_MAX
              \<and> \<lfloor>2 / 1 :: real\<rfloor> + \<lfloor>2 / 1 :: real\<rfloor> + \<lfloor>max 1 (- 5) / 1 :: real\<rfloor> + 3 \<le> INT_MAX"
    by (simp add: INT_MAX_def)
  have "\<exists>s''. Init (flat_terrain 0) unbuilt 2 2 1 (- 5) = Inr s'' \<and> smoothRadius s'' = max 1 (- 5)
                 \<and> resolution s'' = 1
                 \<and> maxx s'' = \<lfloor>2 / 1 :: real\<rfloor> + 1 \<and> maxy s'' = \<lfloor>2 / 1 :: real\<rfloor> + 1"
    using Init_no_validation [of "flat_terrain 0" unbuilt 2 2 1 "- 5"] h by blast
  then show ?thesis using h by simp
qed

section \<open>The Gaussian kernel\<close>

lemma int_div_nonneg: "0 \<le> a \<Longrightarrow> int_div a 2 = a div 2"
  by (cases "a = 0") (simp_all add: int_div_def)







lemma int_div_nonpos: "a \<le> 0 \<Longrightarrow> int_div a 2 \<le> 0"
proof -
  assume "a \<le> 0"
  then have "sgn a \<le> 0" by (simp add: sgn_if)
  moreover have "0 \<le> \<bar>a\<bar> div 2" by simp
  ultimately have "sgn a * (\<bar>a\<bar> div 2) \<le> 0" by (rule mult_nonpos_nonneg)
  then show ?thesis by (simp add: int_div_def)
qed





section \<open>Loops that write one cell per iteration\<close>

lemma fold_write_length:
  "length (fold (\<lambda>k xs. xs[idx k := val k]) ks xs) = length xs"
  by (induction ks arbitrary: xs) simp_all

lemma fold_write_other:
  "i \<notin> idx ` set ks \<Longrightarrow> fold (\<lambda>k xs. xs[idx k := val k]) ks xs ! i = xs ! i"
  by (induction ks arbitrary: xs) auto

lemma fold_write_nth:
  assumes "k \<in> set ks" "inj_on idx (set ks)" "idx k < length xs"
  shows "fold (\<lambda>k xs. xs[idx k := val k]) ks xs ! idx k = val k"
  using assms
proof (induction ks arbitrary: xs)
  case Nil
  then show ?case by simp
next
  case (Cons a ks)
  have inj: "inj_on idx (set ks)" using Cons.prems(2) by (simp add: inj_on_def)
  show ?case
  proof (cases "k \<in> set ks")
    case True
    then show ?thesis using Cons.IH [OF True inj] Cons.prems(3) by simp
  next
    case False
    then have ka: "k = a" using Cons.prems(1) by simp
    have "idx a \<notin> idx ` set ks"
    proof
      assume "idx a \<in> idx ` set ks"
      then obtain b where b: "b \<in> set ks" "idx a = idx b" by auto
      then have "a = b" using Cons.prems(2) by (auto simp: inj_on_def)
      then show False using b False ka by simp
    qed
    then show ?thesis using Cons.prems(3) ka by (simp add: fold_write_other)
  qed
qed

lemma fold_product:
  "fold (\<lambda>y. fold (f y) xs) ys s = fold (\<lambda>(y, x). f y x) (List.product ys xs) s"
proof (induction ys arbitrary: s)
  case Nil
  then show ?case by simp
next
  case (Cons y ys)
  have "fold (\<lambda>(y, x). f y x) (map (Pair y) xs) s = fold (f y) xs s" for s
    by (simp add: fold_map comp_def)
  then show ?case using Cons.IH by simp
qed

lemma double_write:
  "xs[i := std_clamp ((xs[i := a]) ! i) lo hi] = xs[i := std_clamp a lo hi]"
proof (cases "i < length xs")
  case True
  then show ?thesis by simp
next
  case False
  then have "length xs \<le> i" by simp
  then show ?thesis by (simp only: list_update_beyond)
qed

lemma fold_add_sum: "fold (\<lambda>x acc. acc + f x) xs (a::real) = a + sum_list (map f xs)"
  by (induction xs arbitrary: a) (simp_all add: algebra_simps)

lemma fold_add_upto: "fold (\<lambda>x acc. acc + f x) [a..b] (0::real) = (\<Sum>x = a..b. f x)"
  by (simp add: fold_add_sum sum_list_distinct_conv_sum_set)

lemma fold_update_self:
  assumes "distinct ks" "\<forall>k\<in>set ks. 0 \<le> k"
  shows "length (fold (\<lambda>k xs. xs[nat k := f k (xs ! nat k)]) ks xs) = length xs
         \<and> (\<forall>i. i < length xs \<longrightarrow>
               fold (\<lambda>k xs. xs[nat k := f k (xs ! nat k)]) ks xs ! i
               = (if int i \<in> set ks then f (int i) (xs ! i) else xs ! i))"
  using assms
proof (induction ks arbitrary: xs)
  case Nil
  then show ?case by simp
next
  case (Cons k ks)
  let ?xs = "xs[nat k := f k (xs ! nat k)]"
  have d: "distinct ks" "\<forall>k\<in>set ks. 0 \<le> k" "k \<notin> set ks" "0 \<le> k"
    using Cons.prems by simp_all
  note IH = Cons.IH [OF d(1,2), of ?xs]
  show ?case
  proof (intro conjI allI impI)
    show "length (fold (\<lambda>k xs. xs[nat k := f k (xs ! nat k)]) (k # ks) xs) = length xs"
      using IH by simp
  next
    fix i assume i: "i < length xs"
    then have i': "i < length ?xs" by simp
    have eq: "fold (\<lambda>k xs. xs[nat k := f k (xs ! nat k)]) ks ?xs ! i
              = (if int i \<in> set ks then f (int i) (?xs ! i) else ?xs ! i)"
      using IH i' by blast
    show "fold (\<lambda>k xs. xs[nat k := f k (xs ! nat k)]) (k # ks) xs ! i
          = (if int i \<in> set (k # ks) then f (int i) (xs ! i) else xs ! i)"
    proof (cases "int i = k")
      case True
      then have nk: "nat k = i" by simp
      have "int i \<notin> set ks" using True d(3) by simp
      then show ?thesis using eq i True nk by simp
    next
      case False
      then have "nat k \<noteq> i" using d(4) by auto
      then show ?thesis using eq False by simp
    qed
  qed
qed

lemma at_column_apply:
  "at_column body k (cm, mr) =
     (cm[nat k := fst (body k (cm ! nat k, mr ! nat k))],
      mr[nat k := snd (body k (cm ! nat k, mr ! nat k))])"
  by (simp add: at_column_def split_def Let_def)

lemma at_column_fold:
  assumes "distinct ks" "\<forall>k\<in>set ks. 0 \<le> k"
  shows "length (fst (fold (at_column body) ks (cm, mr))) = length cm
         \<and> length (snd (fold (at_column body) ks (cm, mr))) = length mr
         \<and> (\<forall>i. i < length cm \<and> i < length mr \<longrightarrow>
               (fst (fold (at_column body) ks (cm, mr)) ! i,
                snd (fold (at_column body) ks (cm, mr)) ! i)
               = (if int i \<in> set ks then body (int i) (cm ! i, mr ! i) else (cm ! i, mr ! i)))"
  using assms
proof (induction ks arbitrary: cm mr)
  case Nil
  then show ?case by simp
next
  case (Cons k ks)
  let ?c = "fst (body k (cm ! nat k, mr ! nat k))"
  let ?r = "snd (body k (cm ! nat k, mr ! nat k))"
  let ?cm = "cm[nat k := ?c]"
  let ?mr = "mr[nat k := ?r]"
  have d: "distinct ks" "\<forall>k\<in>set ks. 0 \<le> k" "k \<notin> set ks" "0 \<le> k"
    using Cons.prems by simp_all
  note IH = Cons.IH [OF d(1,2), of ?cm ?mr]
  have step: "fold (at_column body) (k # ks) (cm, mr) = fold (at_column body) ks (?cm, ?mr)"
    by (simp add: at_column_apply)
  show ?case
  proof (intro conjI allI impI)
    show "length (fst (fold (at_column body) (k # ks) (cm, mr))) = length cm"
      using IH by (simp add: at_column_apply)
    show "length (snd (fold (at_column body) (k # ks) (cm, mr))) = length mr"
      using IH by (simp add: at_column_apply)
  next
    fix i assume i: "i < length cm \<and> i < length mr"
    then have i': "i < length ?cm \<and> i < length ?mr" by simp
    have eq: "(fst (fold (at_column body) ks (?cm, ?mr)) ! i,
               snd (fold (at_column body) ks (?cm, ?mr)) ! i)
              = (if int i \<in> set ks then body (int i) (?cm ! i, ?mr ! i) else (?cm ! i, ?mr ! i))"
      using IH i' by blast
    show "(fst (fold (at_column body) (k # ks) (cm, mr)) ! i,
           snd (fold (at_column body) (k # ks) (cm, mr)) ! i)
          = (if int i \<in> set (k # ks) then body (int i) (cm ! i, mr ! i) else (cm ! i, mr ! i))"
    proof (cases "int i = k")
      case True
      then have nk: "nat k = i" by simp
      have "int i \<notin> set ks" using True d(3) by simp
      then show ?thesis using eq i True nk by (simp add: at_column_apply)
    next
      case False
      then have "nat k \<noteq> i" using d(4) by auto
      then show ?thesis using eq False by (simp add: at_column_apply)
    qed
  qed
qed

lemma at_column_fold_nth:
  assumes "distinct ks" "\<forall>k\<in>set ks. 0 \<le> k" "i < length cm" "i < length mr" "int i \<in> set ks"
  shows "fst (fold (at_column body) ks (cm, mr)) ! i = fst (body (int i) (cm ! i, mr ! i))"
    and "snd (fold (at_column body) ks (cm, mr)) ! i = snd (body (int i) (cm ! i, mr ! i))"
  using at_column_fold [OF assms(1,2), of body cm mr] assms(3,4,5)
  by (metis fst_conv, metis snd_conv)

lemma at_column_fold_length:
  assumes "distinct ks" "\<forall>k\<in>set ks. 0 \<le> k"
  shows "length (fst (fold (at_column body) ks (cm, mr))) = length cm"
    and "length (snd (fold (at_column body) ks (cm, mr))) = length mr"
  using at_column_fold [OF assms, of body cm mr] by simp_all

lemma columns_distinct: "distinct [0..n]" "\<forall>k\<in>set [0..n]. 0 \<le> k"
  by simp_all

section \<open>The flat index of a cell\<close>

lemma cell_index_inj:
  assumes "0 \<le> x" "x < n" "0 \<le> x'" "x' < n" "x + y * n = x' + y' * (n::int)"
  shows "x = x' \<and> y = y'"
proof -
  have "(x + y * n) mod n = (x' + y' * n) mod n" using assms(5) by simp
  then have "x mod n = x' mod n" by simp
  then have x: "x = x'" using assms by (simp add: mod_pos_pos_trivial)
  then have "y * n = y' * n" using assms(5) by simp
  then show ?thesis using x assms by simp
qed

lemma cell_index_nat_inj:
  assumes "0 \<le> x" "x < n" "0 \<le> x'" "x' < n" "0 \<le> y" "0 \<le> y'"
    "nat (x + y * n) = nat (x' + y' * (n::int))"
  shows "x = x' \<and> y = y'"
proof -
  have "0 \<le> y * n" "0 \<le> y' * n" using assms by simp_all
  then have "x + y * n = x' + y' * n" using assms by (simp add: nat_eq_iff)
  then show ?thesis using assms by (intro cell_index_inj) auto
qed

lemma cell_index_in_mesh:
  assumes "0 \<le> x" "x < nx" "0 \<le> y" "y \<le> ny"
  shows "nat (x + y * nx) < nat ((nx + 1) * (ny + 1))"
proof -
  have "y * nx \<le> ny * nx" using assms by (intro mult_right_mono) auto
  moreover have "(nx + 1) * (ny + 1) = ny * nx + nx + ny + 1" by (simp add: algebra_simps)
  ultimately have "x + y * nx < (nx + 1) * (ny + 1)" using assms by linarith
  moreover have "0 \<le> y * nx" using assms by simp
  ultimately show ?thesis using assms by simp
qed

lemma cell_index_int_range:
  assumes "0 \<le> x" "x < nx" "0 \<le> y" "y \<le> ny" and size: "int_range ((nx + 1) * (ny + 1))"
  shows "int_range (y * nx) \<and> int_range (x + y * nx)"
proof -
  have "y * nx \<le> ny * nx" using assms by (intro mult_right_mono) auto
  moreover have "(nx + 1) * (ny + 1) = ny * nx + nx + ny + 1" by (simp add: algebra_simps)
  ultimately have "x + y * nx < (nx + 1) * (ny + 1)" using assms by linarith
  moreover have "0 \<le> y * nx" using assms by simp
  ultimately show ?thesis
    using assms(1) size unfolding int_range_def INT_MIN_def INT_MAX_def by linarith
qed

text \<open>
  The blur runs its body for \<open>0 \<le> x < maxx\<close> and \<open>0 \<le> y < maxy\<close>, so only when both are at
  least 1; then the size of the mesh bounds \<open>maxx\<close> and \<open>maxy\<close> by half of \<open>INT_MAX\<close>, and
  \<open>blurSize\<close> is at most half of \<open>winSize\<close>.
\<close>

lemma blur_ints_fit:
  assumes size: "int_range ((n + 1) * (m + 1))" and conv: "int_range w"
    and n: "1 \<le> n" and m: "1 \<le> m" and x: "0 \<le> x" "x < n"
  defines "bs \<equiv> max 1 (int_div w 2)"
  shows "int_range (x - bs) \<and> int_range (x + bs) \<and> int_range (x + bs + 1)"
proof -
  have "(n + 1) * 2 \<le> (n + 1) * (m + 1)" using n m by (intro mult_left_mono) auto
  then have nb: "2 * n + 2 \<le> 2147483647"
    using size by (simp add: int_range_iff)
  have b1: "1 \<le> bs" by (simp add: bs_def)
  have b2: "2 * bs \<le> 2147483647"
  proof (cases "0 \<le> w")
    case True
    then have "int_div w 2 = w div 2" by (rule int_div_nonneg)
    moreover have "2 * (w div 2) \<le> w" by simp
    ultimately show ?thesis using conv by (simp add: bs_def int_range_iff max_def)
  next
    case False
    then have "int_div w 2 \<le> 0" by (intro int_div_nonpos) simp
    then show ?thesis by (simp add: bs_def max_def)
  qed
  show ?thesis using nb b1 b2 x unfolding int_range_iff by linarith
qed

section \<open>What the blur passes write\<close>

lemma BlurHorizontal_eq:
  "BlurHorizontal T nx ny bs res k m sm =
     fold (\<lambda>p sm. sm[nat (snd p + fst p * nx) :=
             std_clamp (max (GetHeightReal T (of_int (snd p) * res) (of_int (fst p) * res))
                            (blurred_h k m nx bs (snd p) (fst p)))
               (GetCurrMinHeight T) (GetCurrMaxHeight T)])
       (List.product [0..ny - 1] [0..nx - 1]) sm"
  unfolding BlurHorizontal_def Let_def fold_add_upto fold_product blurred_h_def
  by (simp add: split_def double_write)

lemma BlurVertical_eq:
  "BlurVertical T nx ny bs res k m sm =
     fold (\<lambda>p sm. sm[nat (fst p + snd p * nx) :=
             std_clamp (max (GetHeightReal T (of_int (fst p) * res) (of_int (snd p) * res))
                            (blurred_v k m nx ny bs (fst p) (snd p)))
               (GetCurrMinHeight T) (GetCurrMaxHeight T)])
       (List.product [0..nx - 1] [0..ny - 1]) sm"
  unfolding BlurVertical_def Let_def fold_add_upto fold_product blurred_v_def
  by (simp add: split_def double_write)

lemma BlurHorizontal_length [simp]: "length (BlurHorizontal T nx ny bs res k m sm) = length sm"
  by (simp add: BlurHorizontal_eq fold_write_length)

lemma BlurVertical_length [simp]: "length (BlurVertical T nx ny bs res k m sm) = length sm"
  by (simp add: BlurVertical_eq fold_write_length)



lemma BlurVertical_nth:
  assumes "0 \<le> x" "x < nx" "0 \<le> y" "y < ny" "nat (x + y * nx) < length sm"
  shows "BlurVertical T nx ny bs res k m sm ! nat (x + y * nx) =
           std_clamp (max (GetHeightReal T (of_int x * res) (of_int y * res)) (blurred_v k m nx ny bs x y))
             (GetCurrMinHeight T) (GetCurrMaxHeight T)"
proof -
  let ?idx = "\<lambda>p::int \<times> int. nat (fst p + snd p * nx)"
  let ?ks = "List.product [0..nx - 1] [0..ny - 1]"
  have mem: "(x, y) \<in> set ?ks" using assms by simp
  have inj: "inj_on ?idx (set ?ks)"
    by (rule inj_onI) (auto dest!: cell_index_nat_inj [rotated -1])
  show ?thesis
    unfolding BlurVertical_eq
    using fold_write_nth [of "(x, y)" ?ks ?idx sm, OF mem inj] assms(5) by simp
qed

lemma BlurVertical_other:
  assumes "\<And>x y. 0 \<le> x \<Longrightarrow> x < nx \<Longrightarrow> 0 \<le> y \<Longrightarrow> y < ny \<Longrightarrow> i \<noteq> nat (x + y * nx)"
  shows "BlurVertical T nx ny bs res k m sm ! i = sm ! i"
  unfolding BlurVertical_eq
proof (rule fold_write_other, rule notI)
  assume "i \<in> (\<lambda>p. nat (fst p + snd p * nx)) ` set (List.product [0..nx - 1] [0..ny - 1])"
  then obtain a b where "i = nat (a + b * nx)" "0 \<le> a" "a < nx" "0 \<le> b" "b < ny"
    by auto
  then show False using assms [of a b] by simp
qed

lemma MakeSmoothMesh_blur_length:
  assumes "length a = N" "length b = N"
  shows "length (fst (MakeSmoothMesh_blur n T nx ny bs res k (a, b))) = N
         \<and> length (snd (MakeSmoothMesh_blur n T nx ny bs res k (a, b))) = N"
  using assms by (induction n arbitrary: a b) (simp_all add: Let_def)


section \<open>The sliding-window pass, column by column\<close>

lemma FindMaximumColumnHeights_column:
  assumes "i < length cm" "i < length mr" "int i \<le> nx"
  shows "length (fst (fold (\<lambda>y. fold (at_column (FindMaximumColumnHeights_body T res y)) [0..nx]) ys (cm, mr))) = length cm
       \<and> length (snd (fold (\<lambda>y. fold (at_column (FindMaximumColumnHeights_body T res y)) [0..nx]) ys (cm, mr))) = length mr
       \<and> (fst (fold (\<lambda>y. fold (at_column (FindMaximumColumnHeights_body T res y)) [0..nx]) ys (cm, mr)) ! i,
          snd (fold (\<lambda>y. fold (at_column (FindMaximumColumnHeights_body T res y)) [0..nx]) ys (cm, mr)) ! i)
         = fold (\<lambda>y. FindMaximumColumnHeights_body T res y (int i)) ys (cm ! i, mr ! i)"
  using assms
proof (induction ys arbitrary: cm mr)
  case Nil
  then show ?case by simp
next
  case (Cons y ys)
  let ?st = "fold (at_column (FindMaximumColumnHeights_body T res y)) [0..nx] (cm, mr)"
  have mem: "int i \<in> set [0..nx]" using Cons.prems by simp
  have len: "length (fst ?st) = length cm" "length (snd ?st) = length mr"
    using at_column_fold_length [OF columns_distinct] by blast+
  have nth: "(fst ?st ! i, snd ?st ! i) = FindMaximumColumnHeights_body T res y (int i) (cm ! i, mr ! i)"
    using at_column_fold_nth [OF columns_distinct Cons.prems(1,2) mem] by simp
  have "fold (\<lambda>y. fold (at_column (FindMaximumColumnHeights_body T res y)) [0..nx]) (y # ys) (cm, mr)
        = fold (\<lambda>y. fold (at_column (FindMaximumColumnHeights_body T res y)) [0..nx]) ys (fst ?st, snd ?st)"
    by simp
  then show ?case
    using Cons.IH [of "fst ?st" "snd ?st"] Cons.prems len nth by simp
qed

lemma trueMaximum_eqI:
  assumes "\<And>x y. x0 \<le> x \<Longrightarrow> x \<le> x1 \<Longrightarrow> y0 \<le> y \<Longrightarrow> y \<le> y1 \<Longrightarrow> height_at T res x y \<le> M"
    and "x0 \<le> a" "a \<le> x1" "y0 \<le> b" "b \<le> y1" "height_at T res a b = M"
  shows "trueMaximum T res x0 x1 y0 y1 = M"
  unfolding trueMaximum_def
proof (rule Max_eqI)
  show "finite ((\<lambda>(x, y). GetHeightReal T (of_int x * res) (of_int y * res)) ` ({x0..x1} \<times> {y0..y1}))"
    by simp
  show "M \<in> (\<lambda>(x, y). GetHeightReal T (of_int x * res) (of_int y * res)) ` ({x0..x1} \<times> {y0..y1})"
  proof (rule image_eqI [of _ _ "(a, b)"])
    show "M = (case (a, b) of (x, y) \<Rightarrow> GetHeightReal T (of_int x * res) (of_int y * res))"
      using assms(6) by (simp add: height_at_def)
    show "(a, b) \<in> {x0..x1} \<times> {y0..y1}" using assms(2-5) by simp
  qed
next
  fix v assume "v \<in> (\<lambda>(x, y). GetHeightReal T (of_int x * res) (of_int y * res)) ` ({x0..x1} \<times> {y0..y1})"
  then show "v \<le> M" using assms(1) by (auto simp: height_at_def)
qed

lemma FindMaximumColumnHeights_body_apply:
  "FindMaximumColumnHeights_body T res y x (c, r) =
     (if height_at T res x y > c then (height_at T res x y, y) else (c, r))"
  by (simp add: FindMaximumColumnHeights_body_def height_at_def Let_def)

lemma boot_scan:
  assumes "a - 1 \<le> j"
  shows "case fold (\<lambda>y. FindMaximumColumnHeights_body T res y x) [a..j] (cz, rz) of (c, r) \<Rightarrow>
           (\<forall>i. a \<le> i \<and> i \<le> j \<longrightarrow> height_at T res x i \<le> c) \<and> cz \<le> c
           \<and> ((a \<le> r \<and> r \<le> j \<and> height_at T res x r = c) \<or> (r = rz \<and> c = cz))"
  using assms
proof (induction j rule: int_ge_induct)
  case base
  then show ?case by simp
next
  case (step j)
  have split: "[a..j + 1] = [a..j] @ [j + 1]" using step.hyps by (simp add: upto_rec2)
  obtain c r where cr: "fold (\<lambda>y. FindMaximumColumnHeights_body T res y x) [a..j] (cz, rz) = (c, r)"
    by (cases "fold (\<lambda>y. FindMaximumColumnHeights_body T res y x) [a..j] (cz, rz)")
  have IH: "(\<forall>i. a \<le> i \<and> i \<le> j \<longrightarrow> height_at T res x i \<le> c) \<and> cz \<le> c
           \<and> ((a \<le> r \<and> r \<le> j \<and> height_at T res x r = c) \<or> (r = rz \<and> c = cz))"
    using step.IH cr by simp
  have le: "i \<le> j + 1 \<Longrightarrow> i \<le> j \<or> i = j + 1" for i :: int by linarith
  show ?case
  proof (cases "height_at T res x (j + 1) > c")
    case True
    then show ?thesis
      using IH step.hyps
      by (auto simp: split cr FindMaximumColumnHeights_body_apply dest!: le intro: less_imp_le order_trans)
  next
    case False
    then show ?thesis
      using IH step.hyps
      by (auto simp: split cr FindMaximumColumnHeights_body_apply dest!: le)
  qed
qed

lemma rescan:
  assumes "a - 1 \<le> j"
  shows "case fold (\<lambda>y1 (colsMaxima_x, maximaRows_x).
                 let h = GetHeightReal T (of_int x * res) (of_int y1 * res)
                 in if h > colsMaxima_x then (h, y1)
                    else if colsMaxima_x = h then (colsMaxima_x, y1)
                    else (colsMaxima_x, maximaRows_x)) [a..j] (cz, rz) of (c, r) \<Rightarrow>
           (\<forall>i. a \<le> i \<and> i \<le> j \<longrightarrow> height_at T res x i \<le> c) \<and> cz \<le> c
           \<and> ((a \<le> r \<and> r \<le> j \<and> height_at T res x r = c)
               \<or> (r = rz \<and> c = cz \<and> (\<forall>i. a \<le> i \<and> i \<le> j \<longrightarrow> height_at T res x i < cz)))"
    (is "case fold ?body [a..j] (cz, rz) of (c, r) \<Rightarrow> ?P j c r")
  using assms
proof (induction j rule: int_ge_induct)
  case base
  then show ?case by simp
next
  case (step j)
  have split: "[a..j + 1] = [a..j] @ [j + 1]" using step.hyps by (simp add: upto_rec2)
  obtain c r where cr: "fold ?body [a..j] (cz, rz) = (c, r)"
    by (cases "fold ?body [a..j] (cz, rz)")
  have IH: "?P j c r" using step.IH cr by simp
  have le: "i \<le> j + 1 \<Longrightarrow> i \<le> j \<or> i = j + 1" for i :: int by linarith
  have body: "?body (j + 1) (c, r) =
     (if height_at T res x (j + 1) > c then (height_at T res x (j + 1), j + 1)
      else if c = height_at T res x (j + 1) then (c, j + 1) else (c, r))"
    by (simp add: height_at_def Let_def)
  consider (gt) "height_at T res x (j + 1) > c" | (eq) "height_at T res x (j + 1) = c"
    | (lt) "height_at T res x (j + 1) < c" by linarith
  then show ?case
  proof cases
    case gt
    then show ?thesis
      using IH step.hyps
      by (simp only: split fold_append comp_apply cr fold.simps body id_apply)
         (auto dest!: le intro: less_imp_le order_trans)
  next
    case eq
    then show ?thesis
      using IH step.hyps
      by (simp only: split fold_append comp_apply cr fold.simps body id_apply)
         (auto dest!: le)
  next
    case lt
    then show ?thesis
      using IH step.hyps
      by (simp only: split fold_append comp_apply cr fold.simps body id_apply)
         (auto dest!: le)
  qed
qed

lemma boot_col_inv:
  assumes "0 \<le> w" "0 \<le> ny"
  shows "col_inv T res ny w x 0
           (fold (\<lambda>y. FindMaximumColumnHeights_body T res y x) [0..min ny w] (- FLT_MAX, - 1))"
proof -
  have "0 - 1 \<le> min ny w" using assms by simp
  from boot_scan [OF this, where T = T and res = res and x = x and cz = "- FLT_MAX" and rz = "- 1"] show ?thesis
    using assms by (auto simp: col_inv_def split: prod.splits)
qed

lemma adv_col_inv:
  assumes "col_inv T res ny w x y (c, r)" "0 \<le> y" "y \<le> ny" "0 \<le> w"
  shows "col_inv T res ny w x y (c, if r = y - 1 \<and> height_at T res x y = c then y else r)"
  using assms by (auto simp: col_inv_def)

lemma FixRemainingMaxima_body_apply:
  "FixRemainingMaxima_body T y ny w res x (c, r) =
     (if r \<le> y - w then
        fold (\<lambda>y1 (colsMaxima_x, maximaRows_x).
                 let h = GetHeightReal T (of_int x * res) (of_int y1 * res)
                 in if h > colsMaxima_x then (h, y1)
                    else if colsMaxima_x = h then (colsMaxima_x, y1)
                    else (colsMaxima_x, maximaRows_x))
          [max 0 (y - w + 1)..min ny (y + w + 1)] (- FLT_MAX, r)
      else if y + w + 1 \<le> ny then
        (if height_at T res x (y + w + 1) > c then (height_at T res x (y + w + 1), y + w + 1)
         else (c, r))
      else (c, r))"
  by (simp add: FixRemainingMaxima_body_def Let_def height_at_def)

lemma fix_col_inv:
  assumes inv: "col_inv T res ny w x y (c, r)"
    and y: "0 \<le> y" "y \<le> ny" and w: "0 \<le> w" and next_row: "1 \<le> w \<or> y < ny"
    and low: "\<And>j. - FLT_MAX \<le> height_at T res x j"
  shows "col_inv T res ny w x (y + 1) (FixRemainingMaxima_body T y ny w res x (c, r))"
proof (cases "r \<le> y - w")
  case True
  let ?a = "max 0 (y - w + 1)" and ?j = "min ny (y + w + 1)"
  have ne: "?a \<le> ?j" using y w next_row by auto
  then have "?a - 1 \<le> ?j" by linarith
  note sc = rescan [OF this, where T = T and res = res and x = x and cz = "- FLT_MAX" and rz = r]
  obtain c' r' where cr: "FixRemainingMaxima_body T y ny w res x (c, r) = (c', r')"
    by (cases "FixRemainingMaxima_body T y ny w res x (c, r)")
  have P: "(\<forall>i. ?a \<le> i \<and> i \<le> ?j \<longrightarrow> height_at T res x i \<le> c')
           \<and> ((?a \<le> r' \<and> r' \<le> ?j \<and> height_at T res x r' = c')
               \<or> (r' = r \<and> c' = - FLT_MAX \<and> (\<forall>i. ?a \<le> i \<and> i \<le> ?j \<longrightarrow> height_at T res x i < - FLT_MAX)))"
    using sc cr True by (simp add: FixRemainingMaxima_body_apply)
  have "\<not> (\<forall>i. ?a \<le> i \<and> i \<le> ?j \<longrightarrow> height_at T res x i < - FLT_MAX)"
    using ne low [of ?a] by (auto simp: not_less intro!: exI [of _ ?a])
  then have Q: "?a \<le> r' \<and> r' \<le> ?j \<and> height_at T res x r' = c'" using P by blast
  have win: "max 0 (y + 1 - w) = ?a" "min ny (y + 1 + w) = ?j" by (simp_all add: algebra_simps)
  show ?thesis
    unfolding cr col_inv_def win using P Q by simp
next
  case False
  then have r: "y - w < r" by simp
  have all: "\<And>j. max 0 (y - w) \<le> j \<Longrightarrow> j \<le> min ny (y + w) \<Longrightarrow> height_at T res x j \<le> c"
    using inv by (simp add: col_inv_def)
  have where_max: "(max 0 (y - w) \<le> r \<and> r \<le> min ny (y + w) \<and> height_at T res x r = c)
                   \<or> (r = - 1 \<and> c = - FLT_MAX)"
    using inv by (simp add: col_inv_def)
  show ?thesis
  proof (cases "y + w + 1 \<le> ny")
    case True
    let ?h = "height_at T res x (y + w + 1)"
    have old: "\<And>j. max 0 (y + 1 - w) \<le> j \<Longrightarrow> j \<le> y + w \<Longrightarrow> height_at T res x j \<le> c"
      using all True by (simp add: max_def min_def split: if_splits)
    have hi: "min ny (y + 1 + w) = y + w + 1" using True by simp
    have le: "j \<le> y + w + 1 \<Longrightarrow> j \<le> y + w \<or> j = y + w + 1" for j :: int by linarith
    show ?thesis
    proof (cases "?h > c")
      case gt: True
      have "col_inv T res ny w x (y + 1) (?h, y + w + 1)"
        unfolding col_inv_def hi using old gt y w
        by (auto dest!: le intro: less_imp_le order_trans)
      then show ?thesis using False True gt by (simp add: FixRemainingMaxima_body_apply)
    next
      case ngt: False
      have "col_inv T res ny w x (y + 1) (c, r)"
        unfolding col_inv_def hi using old ngt where_max r y w True
        by (auto dest!: le simp: max_def min_def split: if_splits)
      then show ?thesis using False True ngt by (simp add: FixRemainingMaxima_body_apply)
    qed
  next
    case nonext: False
    have "col_inv T res ny w x (y + 1) (c, r)"
      unfolding col_inv_def using all where_max r y w nonext
      by (auto simp: max_def min_def split: if_splits)
    then show ?thesis using False nonext by (simp add: FixRemainingMaxima_body_apply)
  qed
qed

lemma col_inv_trueMaximum:
  assumes inv: "col_inv T res ny w x y (c, r)"
    and ne: "max 0 (y - w) \<le> min ny (y + w)"
    and low: "\<And>j. - FLT_MAX \<le> height_at T res x j"
  shows "c = trueMaximum T res x x (max 0 (y - w)) (min ny (y + w))"
proof -
  let ?lo = "max 0 (y - w)" and ?hi = "min ny (y + w)"
  have all: "\<And>j. ?lo \<le> j \<Longrightarrow> j \<le> ?hi \<Longrightarrow> height_at T res x j \<le> c"
    using inv by (simp add: col_inv_def)
  have "\<exists>b. ?lo \<le> b \<and> b \<le> ?hi \<and> height_at T res x b = c"
  proof -
    have "(?lo \<le> r \<and> r \<le> ?hi \<and> height_at T res x r = c) \<or> (r = - 1 \<and> c = - FLT_MAX)"
      using inv by (simp add: col_inv_def)
    then show ?thesis
    proof
      assume "?lo \<le> r \<and> r \<le> ?hi \<and> height_at T res x r = c"
      then show ?thesis by blast
    next
      assume "r = - 1 \<and> c = - FLT_MAX"
      then have "height_at T res x ?lo = c" using all [of ?lo] low [of ?lo] ne by simp
      then show ?thesis using ne by blast
    qed
  qed
  then obtain b where b: "?lo \<le> b" "b \<le> ?hi" "height_at T res x b = c" by blast
  show ?thesis
    by (rule sym, rule trueMaximum_eqI [where a = x and b = b]) (use all b in auto)
qed

lemma AdvanceMaximaRows_eq:
  "AdvanceMaximaRows T y nx res cm mr =
     fold (\<lambda>x mr. mr[nat x := (if mr ! nat x = y - 1 \<and> height_at T res x y = cm ! nat x
                                then y else mr ! nat x)]) [0..nx] mr"
proof -
  have "(if mr ! nat x = y - 1 then
             (let curx = of_int x * res;
                  curh = GetHeightReal T curx (of_int y * res)
              in if curh = cm ! nat x then mr[nat x := y] else mr)
           else mr)
        = mr[nat x := (if mr ! nat x = y - 1 \<and> height_at T res x y = cm ! nat x
                                then y else mr ! nat x)]" for x and mr :: "int list"
  proof (cases "mr ! nat x = y - 1 \<and> height_at T res x y = cm ! nat x")
    case True
    then show ?thesis by (simp add: Let_def height_at_def)
  next
    case False
    then have "mr[nat x := (if mr ! nat x = y - 1 \<and> height_at T res x y = cm ! nat x
                                then y else mr ! nat x)] = mr[nat x := mr ! nat x]"
      by (simp only: if_False)
    also have "\<dots> = mr" by (rule list_update_id)
    finally show ?thesis using False by (auto simp: Let_def height_at_def)
  qed
  then show ?thesis by (simp add: AdvanceMaximaRows_def Let_def)
qed

lemma AdvanceMaximaRows_nth:
  assumes "i < length mr" "int i \<le> nx"
  shows "AdvanceMaximaRows T y nx res cm mr ! i =
           (if mr ! i = y - 1 \<and> height_at T res (int i) y = cm ! i then y else mr ! i)"
proof -
  have "int i \<in> set [0..nx]" using assms by simp
  then show ?thesis
    unfolding AdvanceMaximaRows_eq
    using fold_update_self [OF columns_distinct [of nx],
        where f = "\<lambda>x r. if r = y - 1 \<and> height_at T res x y = cm ! nat x then y else r"
          and xs = mr] assms(1)
    by simp
qed

lemma AdvanceMaximaRows_length [simp]:
  "length (AdvanceMaximaRows T y nx res cm mr) = length mr"
  unfolding AdvanceMaximaRows_eq
  using fold_update_self [OF columns_distinct [of nx],
      where f = "\<lambda>x r. if r = y - 1 \<and> height_at T res x y = cm ! nat x then y else r"
        and xs = mr]
  by simp

lemma FindRadialMaximum_eq:
  "FindRadialMaximum y nx w res cm m =
     fold (\<lambda>x m. m[nat (x + y * nx) := maxRowHeight cm nx w x]) [0..nx - 1] m"
  by (simp add: FindRadialMaximum_def maxRowHeight_def Let_def)

lemma FindRadialMaximum_length [simp]:
  "length (FindRadialMaximum y nx w res cm m) = length m"
  by (simp add: FindRadialMaximum_eq fold_write_length)

lemma FindRadialMaximum_nth:
  assumes "0 \<le> x" "x < nx" "0 \<le> y" "nat (x + y * nx) < length m"
  shows "FindRadialMaximum y nx w res cm m ! nat (x + y * nx) = maxRowHeight cm nx w x"
proof -
  have mem: "x \<in> set [0..nx - 1]" using assms by simp
  have inj: "inj_on (\<lambda>x. nat (x + y * nx)) (set [0..nx - 1])"
  proof (rule inj_onI)
    fix a b assume ab: "a \<in> set [0..nx - 1]" "b \<in> set [0..nx - 1]" "nat (a + y * nx) = nat (b + y * nx)"
    then have "0 \<le> a" "a < nx" "0 \<le> b" "b < nx" by simp_all
    from cell_index_nat_inj [OF this assms(3) assms(3) ab(3)] show "a = b" by simp
  qed
  show ?thesis
    unfolding FindRadialMaximum_eq
    using fold_write_nth [of x "[0..nx - 1]" "\<lambda>x. nat (x + y * nx)" m, OF mem inj assms(4)]
    by simp
qed

lemma FindRadialMaximum_other:
  assumes "\<And>x. 0 \<le> x \<Longrightarrow> x < nx \<Longrightarrow> i \<noteq> nat (x + y * nx)"
  shows "FindRadialMaximum y nx w res cm m ! i = m ! i"
  unfolding FindRadialMaximum_eq
proof (rule fold_write_other, rule notI)
  assume "i \<in> (\<lambda>x. nat (x + y * nx)) ` set [0..nx - 1]"
  then obtain a where "i = nat (a + y * nx)" "0 \<le> a" "a < nx" by auto
  then show False using assms [of a] by simp
qed

lemma fold_max_props:
  "mz \<le> fold (\<lambda>i m. max (f i) m) xs mz
   \<and> (\<forall>i\<in>set xs. f i \<le> fold (\<lambda>i m. max (f i) m) xs mz)
   \<and> (fold (\<lambda>i m. max (f i) m) xs mz = mz
       \<or> (\<exists>i\<in>set xs. fold (\<lambda>i m. max (f i) m) xs mz = f i))"
    for mz :: real
proof (induction xs arbitrary: mz)
  case Nil
  then show ?case by simp
next
  case (Cons a xs)
  from Cons.IH [of "max (f a) mz"] show ?case
    by (auto simp: max_def split: if_splits)
qed

lemma col_inv_attained:
  assumes inv: "col_inv T res ny w x y (c, r)"
    and ne: "max 0 (y - w) \<le> min ny (y + w)"
    and low: "\<And>j. - FLT_MAX \<le> height_at T res x j"
  shows "\<exists>b. max 0 (y - w) \<le> b \<and> b \<le> min ny (y + w) \<and> height_at T res x b = c"
proof -
  let ?lo = "max 0 (y - w)" and ?hi = "min ny (y + w)"
  have all: "\<And>j. ?lo \<le> j \<Longrightarrow> j \<le> ?hi \<Longrightarrow> height_at T res x j \<le> c"
    using inv by (simp add: col_inv_def)
  have "(?lo \<le> r \<and> r \<le> ?hi \<and> height_at T res x r = c) \<or> (r = - 1 \<and> c = - FLT_MAX)"
    using inv by (simp add: col_inv_def)
  then show ?thesis
  proof
    assume "?lo \<le> r \<and> r \<le> ?hi \<and> height_at T res x r = c"
    then show ?thesis by blast
  next
    assume "r = - 1 \<and> c = - FLT_MAX"
    then have "height_at T res x ?lo = c" using all [of ?lo] low [of ?lo] ne by simp
    then show ?thesis using ne by blast
  qed
qed

lemma col_inv_upper:
  assumes "col_inv T res ny w x y (c, r)" "max 0 (y - w) \<le> j" "j \<le> min ny (y + w)"
  shows "height_at T res x j \<le> c"
  using assms by (simp add: col_inv_def)

lemma maxRowHeight_trueMaximum:
  assumes inv: "\<And>i. 0 \<le> i \<Longrightarrow> i < nx \<Longrightarrow> col_inv T res ny w i y (cm ! nat i, mr ! nat i)"
    and x: "0 \<le> x" "x < nx" and y: "0 \<le> y" "y \<le> ny" and w: "0 \<le> w"
    and low: "\<And>i j. - FLT_MAX \<le> height_at T res i j"
  shows "maxRowHeight cm nx w x =
           trueMaximum T res (max (x - w) 0) (min (nx - 1) (x + w)) (max 0 (y - w)) (min ny (y + w))"
proof -
  let ?sx = "max (x - w) 0" and ?ex = "min (nx - 1) (x + w)"
  let ?lo = "max 0 (y - w)" and ?hi = "min ny (y + w)"
  let ?M = "maxRowHeight cm nx w x"
  have ne: "?lo \<le> ?hi" using y w by simp
  have yin: "?lo \<le> y" "y \<le> ?hi" using y w by simp_all
  have xin: "?sx \<le> x" "x \<le> ?ex" using x w by simp_all
  note fp = fold_max_props [of "- FLT_MAX" "\<lambda>i. cm ! nat i" "[?sx..?ex]", folded maxRowHeight_def]
  have cols: "\<And>i. ?sx \<le> i \<Longrightarrow> i \<le> ?ex \<Longrightarrow> cm ! nat i \<le> ?M" using fp by simp
  have inv': "\<And>i. ?sx \<le> i \<Longrightarrow> i \<le> ?ex \<Longrightarrow> col_inv T res ny w i y (cm ! nat i, mr ! nat i)"
    by (rule inv) auto
  have upper: "height_at T res i j \<le> ?M" if "?sx \<le> i" "i \<le> ?ex" "?lo \<le> j" "j \<le> ?hi" for i j
    using col_inv_upper [OF inv' [OF that(1,2)] that(3,4)] cols [OF that(1,2)] by linarith
  have "\<exists>a b. ?sx \<le> a \<and> a \<le> ?ex \<and> ?lo \<le> b \<and> b \<le> ?hi \<and> height_at T res a b = ?M"
  proof -
    have "?M = - FLT_MAX \<or> (\<exists>i\<in>set [?sx..?ex]. ?M = cm ! nat i)" using fp by blast
    then show ?thesis
    proof
      assume m: "?M = - FLT_MAX"
      have "height_at T res x y \<le> ?M" using upper [OF xin yin] .
      then have "height_at T res x y = ?M" using low [of x y] m by simp
      then show ?thesis using xin yin by blast
    next
      assume "\<exists>i\<in>set [?sx..?ex]. ?M = cm ! nat i"
      then obtain i where i: "?sx \<le> i" "i \<le> ?ex" "?M = cm ! nat i" by auto
      from col_inv_attained [OF inv' [OF i(1,2)] ne low]
      obtain b where "?lo \<le> b" "b \<le> ?hi" "height_at T res i b = cm ! nat i" by blast
      then show ?thesis using i by metis
    qed
  qed
  then obtain a b where ab: "?sx \<le> a" "a \<le> ?ex" "?lo \<le> b" "b \<le> ?hi" "height_at T res a b = ?M"
    by blast
  show ?thesis
    by (rule sym, rule trueMaximum_eqI [where a = a and b = b]) (use upper ab in auto)
qed

section \<open>The loop over the rows\<close>

lemma MakeSmoothMesh_row_apply:
  "MakeSmoothMesh_row T nx ny w res y (cm, mr, m) =
     (fst (FixRemainingMaxima T y nx ny w res cm (AdvanceMaximaRows T y nx res cm mr)),
      snd (FixRemainingMaxima T y nx ny w res cm (AdvanceMaximaRows T y nx res cm mr)),
      FindRadialMaximum y nx w res cm m)"
  by (simp add: MakeSmoothMesh_row_def Let_def split_def)

lemma FixRemainingMaxima_nth:
  assumes "i < length cm" "i < length mr" "int i \<le> nx"
  shows "(fst (FixRemainingMaxima T y nx ny w res cm mr) ! i,
          snd (FixRemainingMaxima T y nx ny w res cm mr) ! i)
         = FixRemainingMaxima_body T y ny w res (int i) (cm ! i, mr ! i)"
proof -
  have mem: "int i \<in> set [0..nx]" using assms by simp
  show ?thesis
    unfolding FixRemainingMaxima_def
    using at_column_fold_nth [OF columns_distinct [of nx] assms(1,2) mem] by simp
qed

lemma FixRemainingMaxima_length:
  "length (fst (FixRemainingMaxima T y nx ny w res cm mr)) = length cm"
  "length (snd (FixRemainingMaxima T y nx ny w res cm mr)) = length mr"
  unfolding FixRemainingMaxima_def
  using at_column_fold_length [OF columns_distinct [of nx]] by blast+

lemma row_col_inv:
  assumes inv: "col_inv T res ny w (int i) y (cm ! i, mr ! i)"
    and i: "i < length cm" "i < length mr" "int i \<le> nx"
    and y: "0 \<le> y" "y \<le> ny" and w: "0 \<le> w" and next_row: "1 \<le> w \<or> y < ny"
    and low: "\<And>j. - FLT_MAX \<le> height_at T res (int i) j"
  shows "col_inv T res ny w (int i) (y + 1)
           (fst (FixRemainingMaxima T y nx ny w res cm (AdvanceMaximaRows T y nx res cm mr)) ! i,
            snd (FixRemainingMaxima T y nx ny w res cm (AdvanceMaximaRows T y nx res cm mr)) ! i)"
proof -
  let ?mr = "AdvanceMaximaRows T y nx res cm mr"
  have a: "?mr ! i = (if mr ! i = y - 1 \<and> height_at T res (int i) y = cm ! i then y else mr ! i)"
    by (rule AdvanceMaximaRows_nth [OF i(2,3)])
  have inv1: "col_inv T res ny w (int i) y (cm ! i, ?mr ! i)"
    unfolding a by (rule adv_col_inv [OF inv y w])
  have "i < length ?mr" using i by simp
  from FixRemainingMaxima_nth [OF i(1) this i(3)]
  show ?thesis using fix_col_inv [OF inv1 y w next_row low] by simp
qed

lemma rows_invariant:
  assumes w: "0 \<le> w" and ny: "0 \<le> ny"
    and low: "\<And>i j. - FLT_MAX \<le> height_at T res i j"
    and len: "length cm0 = nat (nx + 1)" "length mr0 = nat (nx + 1)"
      "length m0 = nat ((nx + 1) * (ny + 1))"
    and start: "\<And>x. 0 \<le> x \<Longrightarrow> x \<le> nx \<Longrightarrow> col_inv T res ny w x 0 (cm0 ! nat x, mr0 ! nat x)"
    and Y: "- 1 \<le> Y"
  shows "Y \<le> ny \<longrightarrow> (case MakeSmoothMesh_rows T nx ny w res [0..Y] (cm0, mr0, m0) of (cm, mr, m) \<Rightarrow>
           length cm = nat (nx + 1) \<and> length mr = nat (nx + 1)
           \<and> length m = nat ((nx + 1) * (ny + 1))
           \<and> ((1 \<le> w \<or> Y < ny) \<longrightarrow>
                 (\<forall>x. 0 \<le> x \<and> x \<le> nx \<longrightarrow> col_inv T res ny w x (Y + 1) (cm ! nat x, mr ! nat x)))
           \<and> (\<forall>x y. 0 \<le> x \<and> x < nx \<and> 0 \<le> y \<and> y \<le> Y \<longrightarrow>
                 m ! nat (x + y * nx) =
                   trueMaximum T res (max (x - w) 0) (min (nx - 1) (x + w))
                     (max 0 (y - w)) (min ny (y + w)))
           \<and> (\<forall>i. (\<forall>x y. 0 \<le> x \<and> x < nx \<and> 0 \<le> y \<and> y \<le> Y \<longrightarrow> i \<noteq> nat (x + y * nx))
                 \<longrightarrow> m ! i = m0 ! i))"
  using Y
proof (induction Y rule: int_ge_induct)
  case base
  show ?case using len start by (simp add: MakeSmoothMesh_rows_def)
next
  case (step Y)
  show ?case
  proof
    assume Yny: "Y + 1 \<le> ny"
    let ?y = "Y + 1"
    have y: "0 \<le> ?y" "?y \<le> ny" using step.hyps Yny by simp_all
    obtain cm mr m where st: "MakeSmoothMesh_rows T nx ny w res [0..Y] (cm0, mr0, m0) = (cm, mr, m)"
      by (cases "MakeSmoothMesh_rows T nx ny w res [0..Y] (cm0, mr0, m0)") auto
    have IH: "length cm = nat (nx + 1)" "length mr = nat (nx + 1)"
      "length m = nat ((nx + 1) * (ny + 1))"
      "\<And>x. 0 \<le> x \<Longrightarrow> x \<le> nx \<Longrightarrow> col_inv T res ny w x ?y (cm ! nat x, mr ! nat x)"
      "\<And>x y. 0 \<le> x \<Longrightarrow> x < nx \<Longrightarrow> 0 \<le> y \<Longrightarrow> y \<le> Y \<Longrightarrow>
                 m ! nat (x + y * nx) =
                   trueMaximum T res (max (x - w) 0) (min (nx - 1) (x + w))
                     (max 0 (y - w)) (min ny (y + w))"
      "\<And>i. (\<forall>x y. 0 \<le> x \<and> x < nx \<and> 0 \<le> y \<and> y \<le> Y \<longrightarrow> i \<noteq> nat (x + y * nx))
                 \<Longrightarrow> m ! i = m0 ! i"
      using step.IH Yny st by auto
    let ?mr1 = "AdvanceMaximaRows T ?y nx res cm mr"
    let ?cm' = "fst (FixRemainingMaxima T ?y nx ny w res cm ?mr1)"
    let ?mr' = "snd (FixRemainingMaxima T ?y nx ny w res cm ?mr1)"
    let ?m' = "FindRadialMaximum ?y nx w res cm m"
    have split: "[0..Y + 1] = [0..Y] @ [Y + 1]" using step.hyps by (simp add: upto_rec2)
    have st': "MakeSmoothMesh_rows T nx ny w res [0..Y + 1] (cm0, mr0, m0) = (?cm', ?mr', ?m')"
      using st by (simp add: MakeSmoothMesh_rows_def split MakeSmoothMesh_row_apply)
    have l1: "length ?cm' = nat (nx + 1)" "length ?mr' = nat (nx + 1)"
      using FixRemainingMaxima_length [of T ?y nx ny w res cm ?mr1] IH(1,2) by simp_all
    have l2: "length ?m' = nat ((nx + 1) * (ny + 1))" using IH(3) by simp
    have cols: "col_inv T res ny w x (?y + 1) (?cm' ! nat x, ?mr' ! nat x)"
      if "1 \<le> w \<or> ?y < ny" "0 \<le> x" "x \<le> nx" for x
    proof -
      have i: "nat x < length cm" "nat x < length mr" "int (nat x) \<le> nx"
        using that IH(1,2) by simp_all
      have inv: "col_inv T res ny w (int (nat x)) ?y (cm ! nat x, mr ! nat x)"
        using IH(4) [OF that(2,3)] that(2) by simp
      from row_col_inv [OF inv i y w that(1) low] show ?thesis using that(2) by simp
    qed
    have this_row: "?m' ! nat (x + ?y * nx) =
                   trueMaximum T res (max (x - w) 0) (min (nx - 1) (x + w))
                     (max 0 (?y - w)) (min ny (?y + w))" if "0 \<le> x" "x < nx" for x
    proof -
      have "nat (x + ?y * nx) < length m"
        using cell_index_in_mesh [OF that y] IH(3) by simp
      from FindRadialMaximum_nth [OF that y(1) this]
      have "?m' ! nat (x + ?y * nx) = maxRowHeight cm nx w x" .
      also have "\<dots> = trueMaximum T res (max (x - w) 0) (min (nx - 1) (x + w))
                     (max 0 (?y - w)) (min ny (?y + w))"
        by (rule maxRowHeight_trueMaximum [where mr = mr]) (use IH(4) that y w low in auto)
      finally show ?thesis .
    qed
    have earlier: "?m' ! nat (x + y * nx) = m ! nat (x + y * nx)"
      if "0 \<le> x" "x < nx" "0 \<le> y" "y \<le> Y" for x y
    proof (rule FindRadialMaximum_other)
      fix x' assume x': "0 \<le> x'" "x' < nx"
      show "nat (x + y * nx) \<noteq> nat (x' + ?y * nx)"
      proof
        assume "nat (x + y * nx) = nat (x' + ?y * nx)"
        from cell_index_nat_inj [OF that(1,2) x' that(3) y(1) this] that(4)
        show False by simp
      qed
    qed
    have le: "y \<le> Y + 1 \<Longrightarrow> y \<le> Y \<or> y = Y + 1" for y :: int by linarith
    have cells: "?m' ! nat (x + y * nx) =
                   trueMaximum T res (max (x - w) 0) (min (nx - 1) (x + w))
                     (max 0 (y - w)) (min ny (y + w))"
      if "0 \<le> x" "x < nx" "0 \<le> y" "y \<le> Y + 1" for x y
      using le [OF that(4)]
    proof
      assume "y \<le> Y"
      then show ?thesis using earlier [OF that(1,2,3)] IH(5) [OF that(1,2,3)] by simp
    next
      assume "y = Y + 1"
      then show ?thesis using this_row [OF that(1,2)] by simp
    qed
    have untouched: "?m' ! i = m0 ! i"
      if "\<forall>x y. 0 \<le> x \<and> x < nx \<and> 0 \<le> y \<and> y \<le> Y + 1 \<longrightarrow> i \<noteq> nat (x + y * nx)" for i
    proof -
      have "?m' ! i = m ! i"
        by (rule FindRadialMaximum_other) (use that y in auto)
      also have "\<dots> = m0 ! i"
        by (rule IH(6)) (use that in auto)
      finally show ?thesis .
    qed
    show "case MakeSmoothMesh_rows T nx ny w res [0..Y + 1] (cm0, mr0, m0) of (cm, mr, m) \<Rightarrow>
           length cm = nat (nx + 1) \<and> length mr = nat (nx + 1)
           \<and> length m = nat ((nx + 1) * (ny + 1))
           \<and> ((1 \<le> w \<or> Y + 1 < ny) \<longrightarrow>
                 (\<forall>x. 0 \<le> x \<and> x \<le> nx \<longrightarrow> col_inv T res ny w x (Y + 1 + 1) (cm ! nat x, mr ! nat x)))
           \<and> (\<forall>x y. 0 \<le> x \<and> x < nx \<and> 0 \<le> y \<and> y \<le> Y + 1 \<longrightarrow>
                 m ! nat (x + y * nx) =
                   trueMaximum T res (max (x - w) 0) (min (nx - 1) (x + w))
                     (max 0 (y - w)) (min ny (y + w)))
           \<and> (\<forall>i. (\<forall>x y. 0 \<le> x \<and> x < nx \<and> 0 \<le> y \<and> y \<le> Y + 1 \<longrightarrow> i \<noteq> nat (x + y * nx))
                 \<longrightarrow> m ! i = m0 ! i)"
      unfolding st' using l1 l2 cols cells untouched by simp
  qed
qed

lemma resize_length [simp]: "length (resize v n x) = nat n"
  by (simp add: resize_def)

lemma resize_Nil [simp]: "resize [] n x = replicate (nat n) x"
  by (simp add: resize_def)

lemma MakeSmoothMesh_start_eq:
  "MakeSmoothMesh_start T s =
     (fst (fold (\<lambda>y. fold (at_column (FindMaximumColumnHeights_body T (resolution s) y)) [0..maxx s])
               [0..min (maxy s) (MakeSmoothMesh_winSize s)]
               (replicate (nat (maxx s + 1)) (- FLT_MAX), replicate (nat (maxx s + 1)) (- 1))),
      snd (fold (\<lambda>y. fold (at_column (FindMaximumColumnHeights_body T (resolution s) y)) [0..maxx s])
               [0..min (maxy s) (MakeSmoothMesh_winSize s)]
               (replicate (nat (maxx s + 1)) (- FLT_MAX), replicate (nat (maxx s + 1)) (- 1))),
      resize (mesh s) ((maxx s + 1) * (maxy s + 1)) 0)"
  by (simp add: MakeSmoothMesh_start_def FindMaximumColumnHeights_def Let_def split_def)

lemma FindMaximumColumnHeights_loop_length:
  "length (fst (fold (\<lambda>y. fold (at_column (FindMaximumColumnHeights_body T res y)) [0..nx]) ys (cm, mr))) = length cm
   \<and> length (snd (fold (\<lambda>y. fold (at_column (FindMaximumColumnHeights_body T res y)) [0..nx]) ys (cm, mr))) = length mr"
proof (induction ys arbitrary: cm mr)
  case Nil
  then show ?case by simp
next
  case (Cons y ys)
  let ?st = "fold (at_column (FindMaximumColumnHeights_body T res y)) [0..nx] (cm, mr)"
  have len: "length (fst ?st) = length cm" "length (snd ?st) = length mr"
    using at_column_fold_length [OF columns_distinct [of nx]] by blast+
  have "fold (\<lambda>y. fold (at_column (FindMaximumColumnHeights_body T res y)) [0..nx]) (y # ys) (cm, mr)
        = fold (\<lambda>y. fold (at_column (FindMaximumColumnHeights_body T res y)) [0..nx]) ys (fst ?st, snd ?st)"
    by simp
  then show ?case using Cons.IH [of "fst ?st" "snd ?st"] len by simp
qed

lemma MakeSmoothMesh_start_props:
  assumes w: "0 \<le> MakeSmoothMesh_winSize s" and ny: "0 \<le> maxy s"
  shows "length (fst (MakeSmoothMesh_start T s)) = nat (maxx s + 1)"
    and "length (fst (snd (MakeSmoothMesh_start T s))) = nat (maxx s + 1)"
    and "snd (snd (MakeSmoothMesh_start T s)) = resize (mesh s) ((maxx s + 1) * (maxy s + 1)) 0"
    and "\<And>x. 0 \<le> x \<Longrightarrow> x \<le> maxx s \<Longrightarrow>
           col_inv T (resolution s) (maxy s) (MakeSmoothMesh_winSize s) x 0
             (fst (MakeSmoothMesh_start T s) ! nat x, fst (snd (MakeSmoothMesh_start T s)) ! nat x)"
proof -
  let ?w = "MakeSmoothMesh_winSize s" and ?res = "resolution s"
  let ?cm0 = "replicate (nat (maxx s + 1)) (- FLT_MAX)" and ?mr0 = "replicate (nat (maxx s + 1)) (- 1 :: int)"
  let ?st = "fold (\<lambda>y. fold (at_column (FindMaximumColumnHeights_body T ?res y)) [0..maxx s])
               [0..min (maxy s) ?w] (?cm0, ?mr0)"
  have eq: "MakeSmoothMesh_start T s = (fst ?st, snd ?st, resize (mesh s) ((maxx s + 1) * (maxy s + 1)) 0)"
    by (rule MakeSmoothMesh_start_eq)
  note ll = FindMaximumColumnHeights_loop_length [of T ?res "maxx s" "[0..min (maxy s) ?w]" ?cm0 ?mr0]
  show "length (fst (MakeSmoothMesh_start T s)) = nat (maxx s + 1)"
    unfolding eq using ll by simp
  show "length (fst (snd (MakeSmoothMesh_start T s))) = nat (maxx s + 1)"
    unfolding eq using ll by simp
  show "snd (snd (MakeSmoothMesh_start T s)) = resize (mesh s) ((maxx s + 1) * (maxy s + 1)) 0"
    unfolding eq by simp
  show "col_inv T ?res (maxy s) ?w x 0
             (fst (MakeSmoothMesh_start T s) ! nat x, fst (snd (MakeSmoothMesh_start T s)) ! nat x)"
    if x: "0 \<le> x" "x \<le> maxx s" for x
  proof -
    have i: "nat x < length ?cm0" "nat x < length ?mr0" "int (nat x) \<le> maxx s" using x by simp_all
    from FindMaximumColumnHeights_column [OF i, of T ?res "[0..min (maxy s) ?w]"]
    have "(fst ?st ! nat x, snd ?st ! nat x)
          = fold (\<lambda>y. FindMaximumColumnHeights_body T ?res y (int (nat x))) [0..min (maxy s) ?w]
              (?cm0 ! nat x, ?mr0 ! nat x)"
      by blast
    moreover have "int (nat x) = x" "?cm0 ! nat x = - FLT_MAX" "?mr0 ! nat x = - 1"
      using x by simp_all
    ultimately have "(fst ?st ! nat x, snd ?st ! nat x)
          = fold (\<lambda>y. FindMaximumColumnHeights_body T ?res y x) [0..min (maxy s) ?w] (- FLT_MAX, - 1)"
      by simp
    then show ?thesis unfolding eq fst_conv snd_conv using boot_col_inv [OF w ny, of T ?res x] by simp
  qed
qed

lemma window_pass:
  assumes w: "0 \<le> MakeSmoothMesh_winSize s" and ny: "0 \<le> maxy s"
    and low: "\<And>x z. - FLT_MAX \<le> GetHeightReal T x z"
    and Y: "- 1 \<le> Y" "Y \<le> maxy s"
  shows "length (fst (MakeSmoothMesh_window T s [0..Y])) = nat (maxx s + 1)"
    and "length (fst (snd (MakeSmoothMesh_window T s [0..Y]))) = nat (maxx s + 1)"
    and "length (snd (snd (MakeSmoothMesh_window T s [0..Y]))) = nat ((maxx s + 1) * (maxy s + 1))"
    and "\<And>x. 1 \<le> MakeSmoothMesh_winSize s \<or> Y < maxy s \<Longrightarrow> 0 \<le> x \<Longrightarrow> x \<le> maxx s \<Longrightarrow>
           col_inv T (resolution s) (maxy s) (MakeSmoothMesh_winSize s) x (Y + 1)
             (fst (MakeSmoothMesh_window T s [0..Y]) ! nat x,
              fst (snd (MakeSmoothMesh_window T s [0..Y])) ! nat x)"
    and "\<And>x y. 0 \<le> x \<Longrightarrow> x < maxx s \<Longrightarrow> 0 \<le> y \<Longrightarrow> y \<le> Y \<Longrightarrow>
           snd (snd (MakeSmoothMesh_window T s [0..Y])) ! nat (x + y * maxx s) =
             trueMaximum T (resolution s) (max (x - MakeSmoothMesh_winSize s) 0)
               (min (maxx s - 1) (x + MakeSmoothMesh_winSize s))
               (max 0 (y - MakeSmoothMesh_winSize s)) (min (maxy s) (y + MakeSmoothMesh_winSize s))"
    and "\<And>i. (\<And>x y. 0 \<le> x \<Longrightarrow> x < maxx s \<Longrightarrow> 0 \<le> y \<Longrightarrow> y \<le> Y \<Longrightarrow> i \<noteq> nat (x + y * maxx s))
           \<Longrightarrow> snd (snd (MakeSmoothMesh_window T s [0..Y])) ! i
               = resize (mesh s) ((maxx s + 1) * (maxy s + 1)) 0 ! i"
proof -
  let ?st0 = "MakeSmoothMesh_start T s"
  let ?w = "MakeSmoothMesh_winSize s"
  note sp = MakeSmoothMesh_start_props [OF w ny, where T = T]
  have lm: "length (snd (snd ?st0)) = nat ((maxx s + 1) * (maxy s + 1))" using sp(3) by simp
  have low': "\<And>i j. - FLT_MAX \<le> height_at T (resolution s) i j"
    using low by (simp add: height_at_def)
  have st0: "?st0 = (fst ?st0, fst (snd ?st0), snd (snd ?st0))" by simp
  have R0: "Y \<le> maxy s \<longrightarrow>
     (case MakeSmoothMesh_rows T (maxx s) (maxy s) ?w (resolution s) [0..Y]
             (fst ?st0, fst (snd ?st0), snd (snd ?st0)) of (cm, mr, m) \<Rightarrow>
           length cm = nat (maxx s + 1) \<and> length mr = nat (maxx s + 1)
           \<and> length m = nat ((maxx s + 1) * (maxy s + 1))
           \<and> ((1 \<le> ?w \<or> Y < maxy s) \<longrightarrow>
                 (\<forall>x. 0 \<le> x \<and> x \<le> maxx s \<longrightarrow>
                    col_inv T (resolution s) (maxy s) ?w x (Y + 1) (cm ! nat x, mr ! nat x)))
           \<and> (\<forall>x y. 0 \<le> x \<and> x < maxx s \<and> 0 \<le> y \<and> y \<le> Y \<longrightarrow>
                 m ! nat (x + y * maxx s) =
                   trueMaximum T (resolution s) (max (x - ?w) 0) (min (maxx s - 1) (x + ?w))
                     (max 0 (y - ?w)) (min (maxy s) (y + ?w)))
           \<and> (\<forall>i. (\<forall>x y. 0 \<le> x \<and> x < maxx s \<and> 0 \<le> y \<and> y \<le> Y \<longrightarrow> i \<noteq> nat (x + y * maxx s))
                 \<longrightarrow> m ! i = snd (snd ?st0) ! i))"
    by (rule rows_invariant [OF w ny low' sp(1,2) lm sp(4) Y(1)])
  have win: "MakeSmoothMesh_window T s [0..Y] =
       MakeSmoothMesh_rows T (maxx s) (maxy s) ?w (resolution s) [0..Y]
             (fst ?st0, fst (snd ?st0), snd (snd ?st0))"
    unfolding MakeSmoothMesh_window_def by simp
  note R = mp [OF R0 Y(2), folded win, unfolded case_prod_beta sp(3)]
  show "length (fst (MakeSmoothMesh_window T s [0..Y])) = nat (maxx s + 1)"
    by (rule R [THEN conjunct1])
  show "length (fst (snd (MakeSmoothMesh_window T s [0..Y]))) = nat (maxx s + 1)"
    by (rule R [THEN conjunct2, THEN conjunct1])
  show "length (snd (snd (MakeSmoothMesh_window T s [0..Y]))) = nat ((maxx s + 1) * (maxy s + 1))"
    by (rule R [THEN conjunct2, THEN conjunct2, THEN conjunct1])
  show "col_inv T (resolution s) (maxy s) ?w x (Y + 1)
             (fst (MakeSmoothMesh_window T s [0..Y]) ! nat x,
              fst (snd (MakeSmoothMesh_window T s [0..Y])) ! nat x)"
    if "1 \<le> ?w \<or> Y < maxy s" "0 \<le> x" "x \<le> maxx s" for x
    using R [THEN conjunct2, THEN conjunct2, THEN conjunct2, THEN conjunct1] that by blast
  show "snd (snd (MakeSmoothMesh_window T s [0..Y])) ! nat (x + y * maxx s) =
             trueMaximum T (resolution s) (max (x - ?w) 0) (min (maxx s - 1) (x + ?w))
               (max 0 (y - ?w)) (min (maxy s) (y + ?w))"
    if "0 \<le> x" "x < maxx s" "0 \<le> y" "y \<le> Y" for x y
    using R [THEN conjunct2, THEN conjunct2, THEN conjunct2, THEN conjunct2, THEN conjunct1] that
    by blast
  show "snd (snd (MakeSmoothMesh_window T s [0..Y])) ! i
               = resize (mesh s) ((maxx s + 1) * (maxy s + 1)) 0 ! i"
    if "\<And>x y. 0 \<le> x \<Longrightarrow> x < maxx s \<Longrightarrow> 0 \<le> y \<Longrightarrow> y \<le> Y \<Longrightarrow> i \<noteq> nat (x + y * maxx s)" for i
    using R [THEN conjunct2, THEN conjunct2, THEN conjunct2, THEN conjunct2, THEN conjunct2] that
    by blast
qed

section \<open>The windowed maximum\<close>

lemma ridge_height:
  "height_at ridge_terrain 8 x y = (if x = 2 then 10 else if y = 2 then 7 else 0)"
  by (simp add: height_at_def ridge_terrain_def)

lemma ridge_low: "- FLT_MAX \<le> GetHeightReal ridge_terrain x z"
  by (simp add: ridge_terrain_def FLT_MAX_def)

lemma configured_winSize: "MakeSmoothMesh_winSize configured = 1"
  by (simp add: MakeSmoothMesh_winSize_def configured_def float_to_int_def)

lemma ridge_max_inner: "trueMaximum ridge_terrain 8 0 1 0 1 = 0"
  by (rule trueMaximum_eqI [where a = 0 and b = 0]) (simp_all add: ridge_height)

lemma ridge_max_rows: "trueMaximum ridge_terrain 8 0 1 0 2 = 7"
  by (rule trueMaximum_eqI [where a = 0 and b = 2]) (simp_all add: ridge_height)

lemma ridge_max_cols: "trueMaximum ridge_terrain 8 0 2 0 1 = 10"
  by (rule trueMaximum_eqI [where a = 2 and b = 0]) (simp_all add: ridge_height)

lemma ridge_mesh_cells:
  "snd (snd (MakeSmoothMesh_window ridge_terrain configured [0..maxy configured])) ! nat (1 + 0 * maxx configured) = 0"
  "snd (snd (MakeSmoothMesh_window ridge_terrain configured [0..maxy configured])) ! nat (0 + 1 * maxx configured) = 7"
proof -
  have w: "0 \<le> MakeSmoothMesh_winSize configured" by (simp add: configured_winSize)
  have ny: "0 \<le> maxy configured" by (simp add: configured_def)
  have Y: "- 1 \<le> maxy configured" "maxy configured \<le> maxy configured" by (simp_all add: configured_def)
  note wp = window_pass(5) [OF w ny ridge_low Y]
  have a: "(0::int) \<le> 1" "1 < maxx configured" "(0::int) \<le> 0" "0 \<le> maxy configured"
    by (simp_all add: configured_def)
  have b: "(0::int) \<le> 0" "0 < maxx configured" "(0::int) \<le> 1" "1 \<le> maxy configured"
    by (simp_all add: configured_def)
  show "snd (snd (MakeSmoothMesh_window ridge_terrain configured [0..maxy configured])) ! nat (1 + 0 * maxx configured) = 0"
    unfolding wp [OF a] configured_winSize by (simp add: configured_def ridge_max_inner)
  show "snd (snd (MakeSmoothMesh_window ridge_terrain configured [0..maxy configured])) ! nat (0 + 1 * maxx configured) = 7"
    unfolding wp [OF b] configured_winSize by (simp add: configured_def ridge_max_rows)
qed

lemma flat_terrain_simps [simp]:
  "GetHeightReal (flat_terrain H) x z = H"
  "GetCurrMinHeight (flat_terrain H) = H"
  "GetCurrMaxHeight (flat_terrain H) = H"
  by (simp_all add: flat_terrain_def)

lemma configured_simps:
  "maxx configured = 2" "maxy configured = 2" "resolution configured = 8"
  "mesh configured = []" "origMesh configured = []"
  by (simp_all add: configured_def)

lemma coarse_winSize: "MakeSmoothMesh_winSize coarse = 0"
  by (simp add: MakeSmoothMesh_winSize_def coarse_def float_to_int_def)

lemma upto_0_2: "[0..2::int] = [0, 1, 2]"
  by (simp add: upto.simps)

lemma coarse_last_row:
  "fst (MakeSmoothMesh_window (flat_terrain 5) coarse [0..maxy coarse]) ! 0 = - FLT_MAX"
  unfolding MakeSmoothMesh_window_def MakeSmoothMesh_start_def coarse_winSize
  apply (simp add: coarse_def Let_def FindMaximumColumnHeights_def upto_0_2 upto.simps
      at_column_def FindMaximumColumnHeights_body_def MakeSmoothMesh_rows_def MakeSmoothMesh_row_def
      AdvanceMaximaRows_def FindRadialMaximum_def FixRemainingMaxima_def FixRemainingMaxima_body_def
      FLT_MAX_def numeral_eq_Suc)
  done

lemma configured_fault: "MakeSmoothMesh_fault configured = None"
  by (rule MakeSmoothMesh_fault_None)
     (simp_all add: configured_winSize configured_simps INT_MAX_def)

lemma coarse_simps:
  "maxx coarse = 2" "maxy coarse = 2" "resolution coarse = 16"
  "mesh coarse = []" "origMesh coarse = []"
  by (simp_all add: coarse_def)

lemma coarse_fault: "MakeSmoothMesh_fault coarse = None"
  by (rule MakeSmoothMesh_fault_None)
     (simp_all add: coarse_winSize coarse_simps INT_MAX_def)

lemma Init_configured: "Init T unbuilt 8 8 8 8 = MakeSmoothMesh T configured"
proof -
  have "unbuilt\<lparr>fmaxx := 8, maxx := 2, fmaxy := 8, maxy := 2, resolution := 8,
                  smoothRadius := max 1 8\<rparr> = configured"
    by (simp add: unbuilt_def configured_def)
  then show ?thesis by (simp add: Init_def float_to_int_def int_range_iff)
qed

lemma Init_coarse: "Init T unbuilt 16 16 16 8 = MakeSmoothMesh T coarse"
proof -
  have "unbuilt\<lparr>fmaxx := 16, maxx := 2, fmaxy := 16, maxy := 2, resolution := 16,
                  smoothRadius := max 1 8\<rparr> = coarse"
    by (simp add: unbuilt_def coarse_def)
  then show ?thesis by (simp add: Init_def float_to_int_def int_range_iff)
qed

lemma flat_max_last_row: "trueMaximum (flat_terrain 5) 16 0 0 2 2 = 5"
  by (rule trueMaximum_eqI [where a = 0 and b = 2]) (simp_all add: height_at_def)

text \<open>
  C1: the code diverges from the claim at two inputs.  \<^verbatim>\<open>Init(16, 16, 16, 8)\<close> on a terrain
  that is 5 everywhere has \<open>maxx = maxy = 2\<close> and \<open>winSize = 0\<close>; the build returns, and after
  the last row \<open>y = maxy\<close> \<open>colsMaxima[0]\<close> is \<open>- FLT_MAX\<close>, where the claim has the maximum
  of the heights of column 0 over the rows \<open>y - winSize + 1 .. y + winSize + 1\<close> clamped to
  \<open>0 .. maxy\<close>, which is 5: \<^verbatim>\<open>FixRemainingMaxima\<close> rescans the rows
  \<open>max 0 (y - winSize + 1) .. min maxy (y + winSize + 1)\<close>, of which there is none (the
  line \<^verbatim>\<open>assert(maximaRows[x] >= y - winSize + 1)\<close> of the source does not hold there).
  \<^verbatim>\<open>Init(8, 8, 8, 8)\<close> on the ridge terrain has \<open>maxx = maxy = 2\<close> and \<open>winSize = 1\<close>; for the
  cell \<open>(1, 0)\<close> \<^verbatim>\<open>FindRadialMaximum\<close> stores 0, where the claim has the maximum over the
  columns \<open>0 .. 2\<close> and the rows \<open>0 .. 1\<close>, which is 10, the height of column \<open>maxx\<close>: the scan
  of \<open>colsMaxima\<close> stops at \<open>min (maxx - 1) (x + winSize)\<close>, although \<open>colsMaxima\<close> is kept for
  the columns \<open>0 .. maxx\<close>.
\<close>

theorem window_maximum_diverges:
  "\<not> isl (Init (flat_terrain 5) unbuilt 16 16 16 8)
   \<and> MakeSmoothMesh_winSize coarse = 0
   \<and> colsMaxima (projr (Init (flat_terrain 5) unbuilt 16 16 16 8)) ! 0 = - FLT_MAX
   \<and> fst (MakeSmoothMesh_window (flat_terrain 5) coarse [0..maxy coarse]) ! 0 = - FLT_MAX
   \<and> trueMaximum (flat_terrain 5) (resolution coarse) 0 0 (maxy coarse) (maxy coarse) = 5
   \<and> MakeSmoothMesh_winSize configured = 1
   \<and> snd (snd (MakeSmoothMesh_window ridge_terrain configured [0..maxy configured]))
     ! nat (1 + 0 * maxx configured) = 0
   \<and> trueMaximum ridge_terrain (resolution configured) 0 (maxx configured) 0 1 = 10"
proof -
  note pm = MakeSmoothMesh_passes_mesh [OF coarse_fault, of blurPassesCount "flat_terrain 5",
      folded MakeSmoothMesh_def, folded Init_coarse]
  have a: "\<not> isl (Init (flat_terrain 5) unbuilt 16 16 16 8)"
    using pm(1) by (metis sum.disc(2))
  have b: "colsMaxima (projr (Init (flat_terrain 5) unbuilt 16 16 16 8)) ! 0 = - FLT_MAX"
    unfolding pm(3) by (rule coarse_last_row)
  show ?thesis
    using a b ridge_mesh_cells(1) ridge_max_cols coarse_winSize configured_winSize coarse_last_row
      flat_max_last_row
    by (simp add: configured_simps coarse_simps)
qed

section \<open>A flat height field\<close>

lemma std_clamp_flat [simp]: "std_clamp v H H = H"
  by (simp add: std_clamp_def)

lemma trueMaximum_flat:
  assumes "\<And>x z. GetHeightReal T x z = H" "x0 \<le> x1" "y0 \<le> y1"
  shows "trueMaximum T res x0 x1 y0 y1 = H"
  by (rule trueMaximum_eqI [where a = x0 and b = y0]) (use assms in \<open>simp_all add: height_at_def\<close>)

lemma BlurVertical_flat_fixed:
  assumes flat: "\<And>x z. GetHeightReal T x z = H" "GetCurrMinHeight T = H" "GetCurrMaxHeight T = H"
    and cells: "\<And>x y. 0 \<le> x \<Longrightarrow> x < nx \<Longrightarrow> 0 \<le> y \<Longrightarrow> y < ny \<Longrightarrow> a ! nat (x + y * nx) = H"
    and len: "length a = nat ((nx + 1) * (ny + 1))"
  shows "BlurVertical T nx ny bs res k m a = a"
proof (rule nth_equalityI)
  show "length (BlurVertical T nx ny bs res k m a) = length a" by simp
next
  fix i assume "i < length (BlurVertical T nx ny bs res k m a)"
  show "BlurVertical T nx ny bs res k m a ! i = a ! i"
  proof (cases "\<exists>x y. 0 \<le> x \<and> x < nx \<and> 0 \<le> y \<and> y < ny \<and> i = nat (x + y * nx)")
    case True
    then obtain x y where c: "0 \<le> x" "x < nx" "0 \<le> y" "y < ny" "i = nat (x + y * nx)" by blast
    have "y \<le> ny" using c by simp
    from cell_index_in_mesh [OF c(1,2,3) this] have "nat (x + y * nx) < length a" using len by simp
    from BlurVertical_nth [OF c(1-4) this, of T bs res k m]
    show ?thesis using cells [OF c(1-4)] c(5) by (simp add: flat)
  next
    case False
    then show ?thesis by (intro BlurVertical_other) blast
  qed
qed

lemma MakeSmoothMesh_blur_flat:
  assumes flat: "\<And>x z. GetHeightReal T x z = H" "GetCurrMinHeight T = H" "GetCurrMaxHeight T = H"
    and cells: "\<And>x y. 0 \<le> x \<Longrightarrow> x < nx \<Longrightarrow> 0 \<le> y \<Longrightarrow> y < ny \<Longrightarrow> a ! nat (x + y * nx) = H"
    and len: "length a = nat ((nx + 1) * (ny + 1))"
  shows "fst (MakeSmoothMesh_blur n T nx ny bs res k (a, b)) = a"
proof (induction n arbitrary: b)
  case 0
  show ?case by simp
next
  case (Suc n)
  have "BlurVertical T nx ny bs res k (BlurHorizontal T nx ny bs res k a b) a = a"
    by (rule BlurVertical_flat_fixed [OF flat cells len])
  then show ?case using Suc.IH by (simp add: Let_def)
qed

lemma flat_build:
  assumes flat: "\<And>x z. GetHeightReal T x z = H" "GetCurrMinHeight T = H" "GetCurrMaxHeight T = H"
    and fin: "- FLT_MAX \<le> H"
    and ok: "MakeSmoothMesh_fault s = None" and empty: "mesh s = []" and ny: "0 \<le> maxy s"
    and w: "0 \<le> MakeSmoothMesh_winSize s"
  shows "MakeSmoothMesh_passes n T s = Inr (projr (MakeSmoothMesh_passes n T s))"
    and "length (mesh (projr (MakeSmoothMesh_passes n T s))) = nat ((maxx s + 1) * (maxy s + 1))"
    and "\<And>x y. 0 \<le> x \<Longrightarrow> x < maxx s \<Longrightarrow> 0 \<le> y \<Longrightarrow> y \<le> maxy s \<Longrightarrow>
           mesh (projr (MakeSmoothMesh_passes n T s)) ! nat (x + y * maxx s) = H"
    and "\<And>i. nat (maxx s * (maxy s + 1)) \<le> i \<Longrightarrow> i < nat ((maxx s + 1) * (maxy s + 1)) \<Longrightarrow>
           mesh (projr (MakeSmoothMesh_passes n T s)) ! i = 0"
proof -
  let ?A = "snd (snd (MakeSmoothMesh_window T s [0..maxy s]))"
  let ?w = "MakeSmoothMesh_winSize s"
  have low: "\<And>x z. - FLT_MAX \<le> GetHeightReal T x z" using flat fin by simp
  have Y: "- 1 \<le> maxy s" "maxy s \<le> maxy s" using ny by simp_all
  note wp = window_pass [OF w ny low Y]
  have cellsA: "?A ! nat (x + y * maxx s) = H"
    if c: "0 \<le> x" "x < maxx s" "0 \<le> y" "y \<le> maxy s" for x y
  proof -
    have "max (x - ?w) 0 \<le> min (maxx s - 1) (x + ?w)" "max 0 (y - ?w) \<le> min (maxy s) (y + ?w)"
      using c w by simp_all
    from trueMaximum_flat [OF flat(1) this] show ?thesis using wp(5) [OF c] by simp
  qed
  have slackA: "?A ! i = 0"
    if i: "nat (maxx s * (maxy s + 1)) \<le> i" "i < nat ((maxx s + 1) * (maxy s + 1))" for i
  proof -
    have "i \<noteq> nat (x + y * maxx s)" if c: "0 \<le> x" "x < maxx s" "0 \<le> y" "y \<le> maxy s" for x y
    proof -
      have "y * maxx s \<le> maxy s * maxx s" using c by (intro mult_right_mono) auto
      moreover have "maxx s * (maxy s + 1) = maxy s * maxx s + maxx s" by (simp add: algebra_simps)
      ultimately have "x + y * maxx s < maxx s * (maxy s + 1)" using c by linarith
      moreover have "0 \<le> x + y * maxx s" using c by simp
      ultimately have "nat (x + y * maxx s) < nat (maxx s * (maxy s + 1))"
        unfolding zless_nat_conj by linarith
      then show ?thesis using i(1) by linarith
    qed
    from wp(6) [OF this] have "?A ! i = resize (mesh s) ((maxx s + 1) * (maxy s + 1)) 0 ! i" by simp
    then show ?thesis using i empty by simp
  qed
  have cellsA': "\<And>x y. 0 \<le> x \<Longrightarrow> x < maxx s \<Longrightarrow> 0 \<le> y \<Longrightarrow> y < maxy s \<Longrightarrow> ?A ! nat (x + y * maxx s) = H"
    using cellsA by simp
  note pm = MakeSmoothMesh_passes_mesh [OF ok, of n T]
  have m: "mesh (projr (MakeSmoothMesh_passes n T s)) = ?A"
    unfolding pm(2) by (rule MakeSmoothMesh_blur_flat [OF flat cellsA' wp(3)])
  show "MakeSmoothMesh_passes n T s = Inr (projr (MakeSmoothMesh_passes n T s))" by (rule pm(1))
  show "length (mesh (projr (MakeSmoothMesh_passes n T s))) = nat ((maxx s + 1) * (maxy s + 1))"
    unfolding m by (rule wp(3))
  show "\<And>x y. 0 \<le> x \<Longrightarrow> x < maxx s \<Longrightarrow> 0 \<le> y \<Longrightarrow> y \<le> maxy s \<Longrightarrow>
           mesh (projr (MakeSmoothMesh_passes n T s)) ! nat (x + y * maxx s) = H"
    unfolding m by (rule cellsA)
  show "\<And>i. nat (maxx s * (maxy s + 1)) \<le> i \<Longrightarrow> i < nat ((maxx s + 1) * (maxy s + 1)) \<Longrightarrow>
           mesh (projr (MakeSmoothMesh_passes n T s)) ! i = 0"
    unfolding m by (rule slackA)
qed

text \<open>
  C5: the code diverges from the claim.  \<^verbatim>\<open>Init(8, 8, 8, 8)\<close> on a terrain of constant
  height 5 has \<open>maxx = maxy = 2\<close> and returns a mesh of nine floats, the height values of the
  \<open>(maxx + 1) * (maxy + 1)\<close> corners by the comment of \<^verbatim>\<open>MakeSmoothMesh\<close>, of which the last
  three are 0 and not 5: the build writes rows of \<open>maxx\<close> floats, the first
  \<open>maxx * (maxy + 1)\<close> of the array, and the float at \<open>maxx + maxy * (maxx + 1)\<close>, the last
  corner, is never written.
\<close>

theorem flat_field_slack_is_zero:
  "\<not> isl (Init (flat_terrain 5) unbuilt 8 8 8 8)
   \<and> maxx (projr (Init (flat_terrain 5) unbuilt 8 8 8 8)) = 2
   \<and> maxy (projr (Init (flat_terrain 5) unbuilt 8 8 8 8)) = 2
   \<and> length (mesh (projr (Init (flat_terrain 5) unbuilt 8 8 8 8))) = 9
   \<and> mesh (projr (Init (flat_terrain 5) unbuilt 8 8 8 8)) ! nat (2 + 2 * (2 + 1)) = 0
   \<and> mesh (projr (Init (flat_terrain 5) unbuilt 8 8 8 8)) ! 5 = 5
   \<and> mesh (projr (Init (flat_terrain 5) unbuilt 8 8 8 8)) ! 6 = 0
   \<and> mesh (projr (Init (flat_terrain 5) unbuilt 8 8 8 8)) ! 7 = 0"
proof -
  let ?s = "projr (MakeSmoothMesh (flat_terrain 5) configured)"
  have fin: "- FLT_MAX \<le> 5" by (simp add: FLT_MAX_def)
  have h: "mesh configured = []" "0 \<le> maxy configured"
    by (simp_all add: configured_def)
  have w: "0 \<le> MakeSmoothMesh_winSize configured" by (simp add: configured_winSize)
  note fb = flat_build [OF flat_terrain_simps fin configured_fault h w, where n = blurPassesCount,
      folded MakeSmoothMesh_def]
  have a: "\<not> isl (MakeSmoothMesh (flat_terrain 5) configured)"
    using fb(1) by (metis sum.disc(2))
  have f: "maxx ?s = 2" "maxy ?s = 2"
    using MakeSmoothMesh_passes_Inr_fields [OF fb(1) [unfolded MakeSmoothMesh_def]]
    by (simp_all add: MakeSmoothMesh_def configured_simps)
  have b: "length (mesh ?s) = 9"
    using fb(2) by (simp add: configured_simps)
  have c: "mesh ?s ! 8 = 0" by (rule fb(4)) (simp_all add: configured_simps)
  have d: "mesh ?s ! 6 = 0" by (rule fb(4)) (simp_all add: configured_simps)
  have d': "mesh ?s ! 7 = 0" by (rule fb(4)) (simp_all add: configured_simps)
  have "mesh ?s ! nat (1 + 2 * maxx configured) = 5"
    by (rule fb(3)) (simp_all add: configured_simps)
  then have e: "mesh ?s ! 5 = 5" by (simp add: configured_simps)
  show ?thesis unfolding Init_configured using a f b c d d' e by simp
qed

section \<open>The blur keeps the mesh above the terrain\<close>




section \<open>The layout of the mesh\<close>

lemma MakeSmoothMesh_rows_length:
  "length (snd (snd (MakeSmoothMesh_rows T nx ny w res ys st))) = length (snd (snd st))"
proof (induction ys arbitrary: st)
  case Nil
  then show ?case by (simp add: MakeSmoothMesh_rows_def)
next
  case (Cons y ys)
  obtain cm mr m where st: "st = (cm, mr, m)" by (cases st) auto
  have "MakeSmoothMesh_rows T nx ny w res (y # ys) st
        = MakeSmoothMesh_rows T nx ny w res ys (MakeSmoothMesh_row T nx ny w res y (cm, mr, m))"
    by (simp add: MakeSmoothMesh_rows_def st)
  then show ?case using Cons.IH by (simp add: MakeSmoothMesh_row_apply st)
qed

lemma MakeSmoothMesh_window_length:
  "length (snd (snd (MakeSmoothMesh_window T s ys))) = nat ((maxx s + 1) * (maxy s + 1))"
  by (simp add: MakeSmoothMesh_window_def MakeSmoothMesh_rows_length MakeSmoothMesh_start_eq)

lemma MakeSmoothMesh_passes_length:
  assumes "MakeSmoothMesh_passes n T s = Inr s'"
  shows "length (mesh s') = nat ((maxx s + 1) * (maxy s + 1))"
proof -
  let ?N = "nat ((maxx s + 1) * (maxy s + 1))"
  note pm = MakeSmoothMesh_passes_mesh [OF MakeSmoothMesh_passes_Inr [OF assms], of n T]
  have "s' = projr (MakeSmoothMesh_passes n T s)" using assms by simp
  then have "mesh s' = fst (MakeSmoothMesh_blur n T (maxx s) (maxy s) (MakeSmoothMesh_blurSize s) (resolution s)
                  (MakeSmoothMesh_kernel s)
                  (snd (snd (MakeSmoothMesh_window T s [0..maxy s])),
                   resize (origMesh s) ((maxx s + 1) * (maxy s + 1)) 0))"
    using pm(2) by simp
  then show ?thesis
    using MakeSmoothMesh_blur_length [of "snd (snd (MakeSmoothMesh_window T s [0..maxy s]))" ?N
        "resize (origMesh s) ((maxx s + 1) * (maxy s + 1)) 0"]
    by (simp add: MakeSmoothMesh_window_length)
qed

lemma Interpolate_grid_point:
  fixes res :: real
  assumes cell: "0 \<le> x" "x < nx" "0 \<le> y" "y < ny" and res: "res \<noteq> 0"
    and len: "length hm = nat ((nx + 1) * (ny + 1))"
  shows "Interpolate (of_int x * res) (of_int y * res) nx ny res hm = Inr (hm ! nat (x + y * nx))"
proof -
  have n: "1 \<le> nx" "1 \<le> ny" using cell by simp_all
  have cx: "Clamp (of_int x) 0 (of_int nx - 1) = of_int x"
    using cell by (simp add: Clamp_def)
  have cy: "Clamp (of_int y) 0 (of_int ny - 1) = of_int y"
    using cell by (simp add: Clamp_def)
  have fi: "float_to_int (of_int x) = x" "float_to_int (of_int y) = y"
    using cell by (simp_all add: float_to_int_def)
  show ?thesis
    unfolding Interpolate_Inr [OF len n, where x = "of_int x * res" and y = "of_int y * res" and res = res]
    using res by (simp add: cx cy fi bilinear_def)
qed

lemma upto_0_1: "[0..1::int] = [0, 1]"
  by (simp add: upto.simps)

text \<open>
  C4: the code diverges from the claim.  The comment of \<^verbatim>\<open>MakeSmoothMesh\<close> has rows of
  \<open>maxx + 1\<close> height values, row \<open>N\<close> starting at the index \<open>(N - 1) * (maxx + 1)\<close>, as the
  claim has; the code addresses the cell \<open>(x, y)\<close> at \<open>x + y * maxx\<close>.  On the sample mesh
  (\<open>maxx = maxy = 2\<close>, nine floats numbered by their position) the query at the grid point
  \<open>(0, 1)\<close> returns the float at the index \<open>0 + 1 * maxx = 2\<close>, not the one at
  \<open>0 + 1 * (maxx + 1) = 3\<close>, and \<^verbatim>\<open>FindRadialMaximum\<close> stores the cells \<open>(0, 1)\<close> and
  \<open>(1, 1)\<close> at the indices 2 and 3, not at 3 and 4.
\<close>

theorem row_stride_is_maxx:
  "GetHeight sample_mesh 0 8 = Inr 2
   \<and> mesh sample_mesh ! nat (0 + 1 * (maxx sample_mesh + 1)) = 3
   \<and> FindRadialMaximum 1 (maxx sample_mesh) 0 8 [7, 8, 9] (replicate 9 0)
       = [0, 0, 7, 8, 0, 0, 0, 0, 0]"
proof -
  have a: "GetHeight sample_mesh 0 8 = Inr 2"
    by (simp add: GetHeight_def Interpolate_def sample_mesh_def Clamp_def float_to_int_def
        read_at_def mix_def Let_def)
  have b: "mesh sample_mesh ! nat (0 + 1 * (maxx sample_mesh + 1)) = 3"
    by (simp add: sample_mesh_def)
  have r9: "replicate 9 (0::real) = [0, 0, 0, 0, 0, 0, 0, 0, 0]"
    by (simp add: numeral_eq_Suc)
  have c: "FindRadialMaximum 1 (maxx sample_mesh) 0 8 [7, 8, 9] (replicate 9 0)
       = [0, 0, 7, 8, 0, 0, 0, 0, 0]"
    unfolding r9
    by (simp add: FindRadialMaximum_def sample_mesh_def Let_def upto_0_1 upto.simps FLT_MAX_def)
  show ?thesis using a b c by blast
qed

end
